theory Spec2Isabelle
  imports Complex_Main "HOL-Library.Word"
begin

section \<open>KNX step bridge: a shallow embedding of \<open>knx_step_bridge/__init__.py\<close>\<close>

text \<open>
  The integration listens for \<open>knx_event\<close>s and translates between a coarse step value
  (\<open>0..max_step\<close>) and a DPT 5.001 percentage byte. The embedding follows
  \<open>KnxStepBridgeManager\<close>: the payload decoder \<open>_payload_to_int\<close>, the registry lookup
  \<open>_find_bridge_by_address\<close>, the two senders and the handler \<open>_handle_knx_event\<close>.

  Numbers. Python's \<open>int\<close> is unbounded and is modelled by \<open>int\<close>. The source computes the
  conversions in IEEE double precision (\<open>step * 100 / max_step\<close>, \<open>raw / 255.0 * 100\<close>,
  \<open>percent * max_step / 100.0\<close>) and goes back to \<open>int\<close> at once through \<open>math.floor\<close>,
  \<open>round\<close> and \<open>math.ceil\<close>. The model computes the same expressions over the rationals.
  For a \<open>max_step\<close> in the range the configuration schema admits (\<open>1..255\<close>) this gives
  the integers the doubles give:
  \<^item> \<open>step * 100 / max_step\<close> and \<open>percent * max_step / 100.0\<close> are quotients of integers
    below \<open>2 ^ 15\<close>; a correctly rounded quotient that is not an integer stays at least
    \<open>1 / 255\<close> away from the next integer, so floor and ceiling are those of the exact
    quotient;
  \<^item> \<open>raw * 100 / 255\<close> is never half-way between two integers (\<open>40 * raw\<close> is even,
    \<open>51 * (2 * k + 1)\<close> is odd) and stays at least \<open>1 / 102\<close> away from a half, so rounding
    agrees for \<open>0 < raw < 255\<close>; outside that interval both computations end at the clamp;
  \<^item> the one place where the doubles differ in kind is the conversion of a huge \<open>raw\<close> to
    a double in \<open>raw / 255.0\<close>, which raises \<open>OverflowError\<close>; the model has that branch.

  Time. The clock readings and the debounce window are doubles in the source. The model
  holds a finite double as the rational it denotes and does the arithmetic of the
  debounce test as IEEE 754 does: \<open>now - last\<close> and \<open>debounce_ms / 1000.0\<close> are the exact
  results rounded to the nearest double, ties to even (\<open>round_double\<close>); the comparison of
  two doubles is exact.
\<close>

subsection \<open>Errors\<close>

text \<open>
  The Python exceptions of the modelled code. \<open>TypeError\<close> and \<open>ValueError\<close> are caught
  inside the payload decoder; \<open>OverflowError\<close> and \<open>ZeroDivisionError\<close> are caught
  nowhere and leave the handler.
\<close>

datatype error = TypeError | ValueError | OverflowError | ZeroDivisionError

subsection \<open>Unit conversion\<close>

text \<open>
  Lines 113--114 of the handler:
  \<^verbatim>\<open>
  step = max(0, min(bridge.max_step, raw))
  percent = int(math.floor(step * 100 / bridge.max_step))
  \<close>
  Python raises \<open>ZeroDivisionError\<close> for \<open>max_step = 0\<close>.
\<close>

definition step_to_percent :: "int \<Rightarrow> int \<Rightarrow> error + int" where
  "step_to_percent raw max_step =
     (let step = max 0 (min max_step raw)
      in if max_step = 0 then Inl ZeroDivisionError
         else Inr \<lfloor>(of_int (step * 100) :: rat) / of_int max_step\<rfloor>)"

text \<open>
  Python's \<open>round(x)\<close> on a float: the nearest integer, a tie going to the even one.
\<close>

definition py_round :: "rat \<Rightarrow> int" where
  "py_round x =
     (let f = \<lfloor>x\<rfloor>; d = x - of_int f
      in if d < 1 / 2 then f
         else if 1 / 2 < d then f + 1
         else if even f then f else f + 1)"

text \<open>
  \<open>raw / 255.0\<close> converts \<open>raw\<close> to a double first. The conversion rounds to 53 bits, ties
  to even, and raises \<open>OverflowError\<close> when the rounded value needs an exponent above
  1024, that is from \<open>2 ^ 1024 - 2 ^ 970\<close> on (in absolute value).
\<close>

definition float_overflows :: "int \<Rightarrow> bool" where
  "float_overflows raw \<longleftrightarrow> 2 ^ 1024 - 2 ^ 970 \<le> \<bar>raw\<bar>"

text \<open>
  Lines 123--124:
  \<^verbatim>\<open>
  percent = int(round((raw / 255.0) * 100))
  percent = max(0, min(100, percent))
  \<close>
\<close>

definition byte_to_percent :: "int \<Rightarrow> error + int" where
  "byte_to_percent raw =
     (if float_overflows raw then Inl OverflowError
      else Inr (max 0 (min 100 (py_round ((of_int raw / 255) * 100)))))"

text \<open>
  Lines 127--132:
  \<^verbatim>\<open>
  if percent <= 0:
      step = 0
  else:
      step = int(math.ceil(percent * bridge.max_step / 100.0))
      if step > bridge.max_step:
          step = bridge.max_step
  \<close>
\<close>

definition step_of_percent :: "int \<Rightarrow> int \<Rightarrow> int" where
  "step_of_percent percent max_step =
     (if percent \<le> 0 then 0
      else let step = \<lceil>(of_int (percent * max_step) :: rat) / 100\<rceil>
           in if max_step < step then max_step else step)"

text \<open>
  Lines 123--132 together: the percentage read from the raw byte and the step it maps to.
\<close>

definition percent_to_step :: "int \<Rightarrow> int \<Rightarrow> error + int \<times> int" where
  "percent_to_step raw max_step =
     (case byte_to_percent raw of
        Inl e \<Rightarrow> Inl e
      | Inr percent \<Rightarrow> Inr (percent, step_of_percent percent max_step))"

subsection \<open>Payload values\<close>

text \<open>
  The payload of an event is an arbitrary Python value. A float is a finite value (a
  rational; every double is one), an infinity with its sign, or not-a-number. A \<open>str\<close> is
  the list of its code points, each a \<open>char\<close> (code points below 256); \<open>bytes\<close> and
  \<open>bytearray\<close> are lists of octets. \<open>PObject\<close> stands for any other object (a \<open>dict\<close>,
  say), which \<open>int()\<close> rejects with \<open>TypeError\<close>.
\<close>

datatype pyfloat = Finite rat | Infinity bool | NaN

datatype pyval =
    PNone
  | PBool bool
  | PInt int
  | PFloat pyfloat
  | PStr string
  | PBytes "8 word list"
  | PByteArray "8 word list"
  | PList "pyval list"
  | PTuple "pyval list"
  | PObject

subsection \<open>The builtin \<open>int()\<close>\<close>

text \<open>
  \<open>int(s, base)\<close> on text, after CPython's \<open>PyLong_FromString\<close>, for base 10 and base 16,
  over the code points of the text: leading and trailing whitespace is skipped, one sign
  is allowed, base 16 allows the prefix \<open>0x\<close> or \<open>0X\<close> and one underscore after it, the
  digits may be separated by single underscores, and nothing else may follow. The
  interpreter's configurable limit on the number of decimal digits (4300 by default, a
  \<open>ValueError\<close> beyond it) is a setting of the environment and is not modelled.
\<close>

definition digit_value :: "nat \<Rightarrow> nat option" where
  "digit_value c =
     (if 48 \<le> c \<and> c \<le> 57 then Some (c - 48)
      else if 97 \<le> c \<and> c \<le> 122 then Some (c - 87)
      else if 65 \<le> c \<and> c \<le> 90 then Some (c - 55)
      else None)"

text \<open>
  The digit loop: \<open>prev_us\<close> says that the previous character was an underscore
  (code point 95); two in a row and one at the end are errors.
\<close>

fun scan_digits :: "nat \<Rightarrow> bool \<Rightarrow> nat \<Rightarrow> nat list \<Rightarrow> nat option" where
  "scan_digits base prev_us acc [] = (if prev_us then None else Some acc)"
| "scan_digits base prev_us acc (c # cs) =
     (if c = 95 then (if prev_us then None else scan_digits base True acc cs)
      else case digit_value c of
             None \<Rightarrow> None
           | Some d \<Rightarrow> if d < base then scan_digits base False (acc * base + d) cs else None)"

definition strip_sign :: "nat list \<Rightarrow> bool \<times> nat list" where
  "strip_sign s =
     (if s \<noteq> [] \<and> hd s = 45 then (True, tl s)
      else if s \<noteq> [] \<and> hd s = 43 then (False, tl s)
      else (False, s))"

definition strip_prefix16 :: "nat list \<Rightarrow> nat list" where
  "strip_prefix16 s =
     (if 2 \<le> length s \<and> s ! 0 = 48 \<and> (s ! 1 = 120 \<or> s ! 1 = 88)
      then (let r = drop 2 s in if r \<noteq> [] \<and> hd r = 95 then tl r else r)
      else s)"

definition parse_int :: "(nat \<Rightarrow> bool) \<Rightarrow> nat \<Rightarrow> nat list \<Rightarrow> int option" where
  "parse_int isspace base s =
     (let body = rev (dropWhile isspace (rev (dropWhile isspace s)));
          (neg, unsigned) = strip_sign body;
          ds = (if base = 16 then strip_prefix16 unsigned else unsigned)
      in if ds = [] \<or> hd ds = 95 then None
         else map_option (\<lambda>n. if neg then - int n else int n) (scan_digits base False 0 ds))"

text \<open>
  Whitespace: for \<open>bytes\<close> the ASCII whitespace of \<open>Py_ISSPACE\<close>; for \<open>str\<close> the same below
  code point 128 and the two Unicode whitespace characters between 128 and 255
  (NEL, no-break space), which CPython turns into a space before parsing.
\<close>

definition bytes_isspace :: "nat \<Rightarrow> bool" where
  "bytes_isspace c \<longleftrightarrow> (9 \<le> c \<and> c \<le> 13) \<or> c = 32"

definition str_isspace :: "nat \<Rightarrow> bool" where
  "str_isspace c \<longleftrightarrow> bytes_isspace c \<or> c = 133 \<or> c = 160"

definition int_of_str :: "nat \<Rightarrow> string \<Rightarrow> int option" where
  "int_of_str base s = parse_int str_isspace base (map of_char s)"

definition int_of_bytes :: "8 word list \<Rightarrow> int option" where
  "int_of_bytes bs = parse_int bytes_isspace 10 (map unat bs)"

text \<open>\<open>int(x)\<close> on a float truncates towards zero.\<close>

definition truncate :: "rat \<Rightarrow> int" where
  "truncate q = (if 0 \<le> q then \<lfloor>q\<rfloor> else \<lceil>q\<rceil>)"

text \<open>
  The one-argument \<open>int(x)\<close>: \<open>bool\<close> is a subclass of \<open>int\<close>; an infinite float raises
  \<open>OverflowError\<close>, not-a-number \<open>ValueError\<close>; text is parsed in base 10; \<open>None\<close>,
  sequences and other objects raise \<open>TypeError\<close>.
\<close>

fun py_int :: "pyval \<Rightarrow> error + int" where
  "py_int (PInt n) = Inr n"
| "py_int (PBool b) = Inr (if b then 1 else 0)"
| "py_int (PFloat (Finite q)) = Inr (truncate q)"
| "py_int (PFloat (Infinity _)) = Inl OverflowError"
| "py_int (PFloat NaN) = Inl ValueError"
| "py_int (PStr s) = (case int_of_str 10 s of None \<Rightarrow> Inl ValueError | Some n \<Rightarrow> Inr n)"
| "py_int (PBytes bs) = (case int_of_bytes bs of None \<Rightarrow> Inl ValueError | Some n \<Rightarrow> Inr n)"
| "py_int (PByteArray bs) = (case int_of_bytes bs of None \<Rightarrow> Inl ValueError | Some n \<Rightarrow> Inr n)"
| "py_int _ = Inl TypeError"

subsection \<open>\<open>_payload_to_int\<close>\<close>

text \<open>
  \<^verbatim>\<open>
  try: return int(payload[0])
  except (TypeError, ValueError): return None
  \<close>
  Any other exception of \<open>int()\<close> is not caught.
\<close>

definition first_to_int :: "pyval \<Rightarrow> error + int option" where
  "first_to_int x =
     (case py_int x of
        Inr n \<Rightarrow> Inr (Some n)
      | Inl e \<Rightarrow> if e = TypeError \<or> e = ValueError then Inr None else Inl e)"

text \<open>
  The \<open>isinstance\<close> chain, in the source's order. A \<open>bool\<close> passes the first test and is
  returned as it is; it counts as 0 or 1 in the arithmetic that follows. \<open>Inr None\<close> is the
  returned \<open>None\<close>.
\<close>

fun payload_to_int :: "pyval \<Rightarrow> error + int option" where
  "payload_to_int (PInt n) = Inr (Some n)"
| "payload_to_int (PBool b) = Inr (Some (if b then 1 else 0))"
| "payload_to_int (PStr s) =
     Inr (if take 2 s = ''0x'' then int_of_str 16 s else int_of_str 10 s)"
| "payload_to_int (PList xs) = (if xs \<noteq> [] then first_to_int (hd xs) else Inr None)"
| "payload_to_int (PTuple xs) = (if xs \<noteq> [] then first_to_int (hd xs) else Inr None)"
| "payload_to_int (PBytes bs) = (if 1 \<le> length bs then Inr (Some (uint (hd bs))) else Inr None)"
| "payload_to_int (PByteArray bs) =
     (if 1 \<le> length bs then Inr (Some (uint (hd bs))) else Inr None)"
| "payload_to_int _ = Inr None"

subsection \<open>Double-precision arithmetic\<close>

text \<open>
  The number of binary digits of a natural number (\<open>int.bit_length\<close>), and from it the
  binary exponent of a rational: \<open>fexp x\<close> is the integer \<open>e\<close> with
  \<open>2 ^ e \<le> \<bar>x\<bar> < 2 ^ (e + 1)\<close>.
\<close>

fun bit_length :: "nat \<Rightarrow> nat" where
  "bit_length n = (if n = 0 then 0 else Suc (bit_length (n div 2)))"

declare bit_length.simps [simp del]

definition fexp :: "rat \<Rightarrow> int" where
  "fexp x =
     (if 1 \<le> \<bar>x\<bar> then int (bit_length (nat \<lfloor>\<bar>x\<bar>\<rfloor>)) - 1
      else - int (bit_length (nat (\<lceil>1 / \<bar>x\<bar>\<rceil> - 1))))"

text \<open>
  The spacing of the doubles around \<open>x\<close>: 53 significant bits, and \<open>2 ^ -1074\<close> in the
  subnormal range.
\<close>

definition ulp :: "rat \<Rightarrow> rat" where
  "ulp x = 2 powi (max (fexp x - 52) (- 1074))"

text \<open>
  Rounding to the nearest multiple of the spacing, a tie going to the even multiple, with
  an unbounded exponent; then the overflow rule: a rounded magnitude of \<open>2 ^ 1024\<close> or
  more is an infinity.
\<close>

definition round_finite :: "rat \<Rightarrow> rat" where
  "round_finite x = of_int (py_round (x / ulp x)) * ulp x"

definition round_double :: "rat \<Rightarrow> pyfloat" where
  "round_double x =
     (let r = round_finite x
      in if 2 ^ 1024 \<le> \<bar>r\<bar> then Infinity (x < 0) else Finite r)"

text \<open>
  \<open>a - b\<close> on two finite doubles, and \<open>d < w\<close> for the difference and a finite double
  \<open>w\<close>: minus infinity is below every finite double, plus infinity and not-a-number are
  below none.
\<close>

definition float_sub :: "rat \<Rightarrow> rat \<Rightarrow> pyfloat" where
  "float_sub a b = round_double (a - b)"

fun float_less :: "pyfloat \<Rightarrow> rat \<Rightarrow> bool" where
  "float_less (Finite d) w \<longleftrightarrow> d < w"
| "float_less (Infinity negative) w \<longleftrightarrow> negative"
| "float_less NaN w \<longleftrightarrow> False"

subsection \<open>Bridges, the manager and its registry\<close>

record bridge =
  name :: string
  step_address :: string
  percent_address :: string
  max_step :: int
  last_sent_step_ts :: rat
  last_sent_percent_ts :: rat

text \<open>The dataclass defaults: both timestamps start at \<open>0.0\<close>.\<close>

definition Bridge :: "string \<Rightarrow> string \<Rightarrow> string \<Rightarrow> int \<Rightarrow> bridge" where
  "Bridge n sa pa ms =
     \<lparr>name = n, step_address = sa, percent_address = pa, max_step = ms,
      last_sent_step_ts = 0, last_sent_percent_ts = 0\<rparr>"

text \<open>
  The manager's state that the handler reads and writes: the registered bridges, in
  registration order, and the debounce window in seconds, a finite double.
\<close>

record manager =
  bridges :: "bridge list"
  debounce :: rat

text \<open>
  Line 64, \<open>self._debounce = debounce_ms / 1000.0\<close>: the integer is converted to a double
  (\<open>OverflowError\<close> when it is too large), and the quotient by 1000, which cannot
  overflow, is rounded to a double.
\<close>

definition KnxStepBridgeManager :: "int \<Rightarrow> error + manager" where
  "KnxStepBridgeManager debounce_ms =
     (if float_overflows debounce_ms then Inl OverflowError
      else Inr \<lparr>bridges = [],
                debounce = round_finite (round_finite (of_int debounce_ms) / 1000)\<rparr>)"

definition add_bridge :: "manager \<Rightarrow> bridge \<Rightarrow> manager" where
  "add_bridge m b = m\<lparr>bridges := bridges m @ [b]\<rparr>"

text \<open>
  \<open>BRIDGE_SCHEMA\<close> (line 30) admits a \<open>max_step\<close> from 1 to 255 only; \<open>async_setup\<close> builds
  every bridge from validated configuration.
\<close>

definition valid_config :: "manager \<Rightarrow> bool" where
  "valid_config m \<longleftrightarrow> (\<forall>b \<in> set (bridges m). 1 \<le> max_step b \<and> max_step b \<le> 255)"

text \<open>
  \<open>_find_bridge_by_address\<close> returns the first bridge one of whose addresses is the given
  one. The source returns the object, which the senders then mutate in place; the model
  returns its position in the registry, where the updated bridge is written back.
\<close>

fun find_bridge_by_address :: "bridge list \<Rightarrow> string \<Rightarrow> nat option" where
  "find_bridge_by_address [] address = None"
| "find_bridge_by_address (b # bs) address =
     (if address = step_address b \<or> address = percent_address b then Some 0
      else map_option Suc (find_bridge_by_address bs address))"

subsection \<open>Outbound sends\<close>

text \<open>The service data of one \<open>knx.send\<close> call.\<close>

record knx_send =
  send_address :: string
  send_payload :: int
  send_type :: string

text \<open>
  \<open>_send_percent\<close> and \<open>_send_step\<close>: clamp, stamp the bridge with the clock reading
  taken inside the sender, and dispatch the call (not awaited for completion). The model
  returns the stamped bridge and the dispatched call.
\<close>

definition send_percent :: "bridge \<Rightarrow> rat \<Rightarrow> int \<Rightarrow> bridge \<times> knx_send" where
  "send_percent b now percent =
     (b\<lparr>last_sent_percent_ts := now\<rparr>,
      \<lparr>send_address = percent_address b, send_payload = max 0 (min 100 percent),
       send_type = ''percent''\<rparr>)"

definition send_step :: "bridge \<Rightarrow> rat \<Rightarrow> int \<Rightarrow> bridge \<times> knx_send" where
  "send_step b now step =
     (b\<lparr>last_sent_step_ts := now\<rparr>,
      \<lparr>send_address = step_address b, send_payload = max 0 (min (max_step b) step),
       send_type = ''1byte_unsigned''\<rparr>)"

subsection \<open>\<open>_handle_knx_event\<close>\<close>

text \<open>
  The fields of \<open>event.data\<close> the handler reads. \<open>None\<close> is a missing key or a Python
  \<open>None\<close> (\<open>dict.get\<close> does not tell them apart), \<open>PNone\<close> likewise for the payload. KNX
  addresses are text.
\<close>

record knx_event =
  ev_address :: "string option"
  ev_destination :: "string option"
  ev_data :: pyval

text \<open>\<open>data.get("address") or data.get("destination")\<close>: the empty string is falsy.\<close>

definition event_address :: "knx_event \<Rightarrow> string option" where
  "event_address ev =
     (case ev_address ev of
        None \<Rightarrow> ev_destination ev
      | Some a \<Rightarrow> if a \<noteq> [] then Some a else ev_destination ev)"

text \<open>
  The handler takes the manager, the two clock readings it would make (\<open>now\<close> at line
  107, \<open>now_send\<close> inside the sender; finite doubles) and the event. The debounce tests
  of lines 111 and 119 subtract and compare in double precision. It returns the manager after the
  event together with the dispatched sends, or the exception raised. Every exception of
  the model is raised before anything is written, so an \<open>Inl\<close> leaves the manager as it
  was.
\<close>

definition handle_knx_event ::
  "manager \<Rightarrow> rat \<Rightarrow> rat \<Rightarrow> knx_event \<Rightarrow> error + manager \<times> knx_send list" where
  "handle_knx_event m now now_send ev =
     (case event_address ev of
        None \<Rightarrow> Inr (m, [])
      | Some address \<Rightarrow>
          if address = [] \<or> ev_data ev = PNone then Inr (m, [])
          else case find_bridge_by_address (bridges m) address of
            None \<Rightarrow> Inr (m, [])
          | Some i \<Rightarrow>
              (let b = bridges m ! i in
               case payload_to_int (ev_data ev) of
                 Inl e \<Rightarrow> Inl e
               | Inr None \<Rightarrow> Inr (m, [])
               | Inr (Some raw) \<Rightarrow>
                   if address = step_address b then
                     if float_less (float_sub now (last_sent_step_ts b)) (debounce m)
                     then Inr (m, [])
                     else case step_to_percent raw (max_step b) of
                       Inl e \<Rightarrow> Inl e
                     | Inr percent \<Rightarrow>
                         (let (b', s) = send_percent b now_send percent
                          in Inr (m\<lparr>bridges := (bridges m)[i := b']\<rparr>, [s]))
                   else if address = percent_address b then
                     if float_less (float_sub now (last_sent_percent_ts b)) (debounce m)
                     then Inr (m, [])
                     else case percent_to_step raw (max_step b) of
                       Inl e \<Rightarrow> Inl e
                     | Inr (percent, step) \<Rightarrow>
                         (let (b', s) = send_step b now_send step
                          in Inr (m\<lparr>bridges := (bridges m)[i := b']\<rparr>, [s]))
                   else Inr (m, [])))"

section \<open>Arithmetic of the conversions\<close>

text \<open>
  The floor, ceiling and rounding of the model's rational quotients, in integer
  arithmetic.
\<close>

lemma ceiling_rat_quotient: "\<lceil>(of_int a :: rat) / of_int b\<rceil> = - ((- a) div b)"
proof -
  have "\<lceil>(of_int a :: rat) / of_int b\<rceil> = - \<lfloor>(of_int (- a) :: rat) / of_int b\<rfloor>"
    by (simp add: ceiling_def)
  then show ?thesis by (simp only: floor_divide_of_int_eq)
qed

lemma ceil_div_bounds:
  fixes x :: int
  shows "100 * (- ((- x) div 100) - 1) < x \<and> x \<le> 100 * (- ((- x) div 100))"
proof -
  define q where "q = (- x) div 100"
  define r where "r = (- x) mod 100"
  have e: "- x = 100 * q + r" by (simp add: q_def r_def)
  have r: "0 \<le> r" "r < 100" by (simp_all add: r_def)
  have lo: "100 * (- q - 1) < x" using e r by arith
  have hi: "x \<le> 100 * (- q)" using e r by arith
  show ?thesis using lo hi by (simp only: q_def simp_thms)
qed

text \<open>Away from a tie, rounding a quotient is adding a half and taking the floor.\<close>

lemma py_round_quotient:
  assumes "0 < b" "2 * (a mod b) \<noteq> b"
  shows "py_round (of_int a / of_int b) = (2 * a + b) div (2 * b)"
proof -
  define q where "q = a div b"
  define r where "r = a mod b"
  have a: "a = b * q + r" by (simp add: q_def r_def)
  have r: "0 \<le> r" "r < b" using assms by (simp_all add: r_def)
  have fl: "\<lfloor>(of_int a :: rat) / of_int b\<rfloor> = q"
    by (simp only: floor_divide_of_int_eq q_def)
  have d: "(of_int a :: rat) / of_int b - of_int q = of_int r / of_int b"
    using assms(1) by (simp add: a field_simps)
  have lt: "(of_int r :: rat) / of_int b < 1 / 2 \<longleftrightarrow> 2 * r < b"
  proof -
    have "(of_int r :: rat) / of_int b < 1 / 2 \<longleftrightarrow> (of_int (2 * r) :: rat) < of_int b"
      using assms(1) by (simp add: field_simps)
    then show ?thesis by (simp only: of_int_less_iff)
  qed
  have gt: "1 / 2 < (of_int r :: rat) / of_int b \<longleftrightarrow> b < 2 * r"
  proof -
    have "1 / 2 < (of_int r :: rat) / of_int b \<longleftrightarrow> (of_int b :: rat) < of_int (2 * r)"
      using assms(1) by (simp add: field_simps)
    then show ?thesis by (simp only: of_int_less_iff)
  qed
  have ne: "2 * r \<noteq> b" using assms(2) by (simp add: r_def)
  have rhs: "(2 * a + b) div (2 * b) = (if 2 * r < b then q else q + 1)"
  proof (cases "2 * r < b")
    case True
    have "2 * a + b = (2 * b) * q + (2 * r + b)" by (simp add: a algebra_simps)
    moreover have "0 \<le> 2 * r + b" "2 * r + b < 2 * b" using r True by simp_all
    ultimately have "(2 * a + b) div (2 * b) = q"
      by (rule int_div_pos_eq)
    with True show ?thesis by simp
  next
    case False
    with ne have gt': "b < 2 * r" by simp
    have "2 * a + b = (2 * b) * (q + 1) + (2 * r - b)" by (simp add: a algebra_simps)
    moreover have "0 \<le> 2 * r - b" "2 * r - b < 2 * b" using r gt' by simp_all
    ultimately have "(2 * a + b) div (2 * b) = q + 1"
      by (rule int_div_pos_eq)
    with False show ?thesis by simp
  qed
  show ?thesis
    unfolding py_round_def Let_def fl d lt gt rhs using ne by auto
qed

text \<open>
  \<open>raw * 100 / 255\<close> is never a tie, so the percentage of a raw byte is
  \<open>(200 * raw + 255) div 510\<close>, clamped.
\<close>

lemma byte_to_percent_div:
  "\<not> float_overflows raw \<Longrightarrow>
   byte_to_percent raw = Inr (max 0 (min 100 ((200 * raw + 255) div 510)))"
proof -
  have x: "(of_int raw / 255 * 100 :: rat) = of_int (100 * raw) / of_int 255"
    by simp
  have odd: "2 * ((100 * raw) mod 255) \<noteq> 255"
  proof
    assume h: "2 * ((100 * raw) mod 255) = 255"
    have "even (2 * ((100 * raw) mod 255))" by simp
    then have "even (255::int)" by (simp only: h)
    then show False by simp
  qed
  have "py_round (of_int raw / 255 * 100) = (2 * (100 * raw) + 255) div (2 * 255)"
    unfolding x by (rule py_round_quotient) (simp, rule odd)
  then show "\<not> float_overflows raw \<Longrightarrow> ?thesis"
    by (simp add: byte_to_percent_def)
qed

lemma step_of_percent_div:
  "step_of_percent p ms = (if p \<le> 0 then 0 else min ms (- ((- (p * ms)) div 100)))"
proof -
  have "\<lceil>(of_int (p * ms) :: rat) / 100\<rceil> = - ((- (p * ms)) div 100)"
    using ceiling_rat_quotient [of "p * ms" 100] by simp
  then show ?thesis
    unfolding step_of_percent_def Let_def by (simp add: min_def)
qed

lemma step_to_percent_div:
  "ms \<noteq> 0 \<Longrightarrow> step_to_percent raw ms = Inr ((max 0 (min ms raw)) * 100 div ms)"
  unfolding step_to_percent_def Let_def by (simp only: floor_divide_of_int_eq if_False)

lemma small_no_overflow: "\<bar>raw\<bar> \<le> 255 \<Longrightarrow> \<not> float_overflows raw"
proof -
  have "(255::int) < 2 ^ 1024 - 2 ^ 970" by simp
  then show "\<bar>raw\<bar> \<le> 255 \<Longrightarrow> ?thesis" unfolding float_overflows_def by linarith
qed

lemma percent_to_step_div:
  "\<not> float_overflows raw \<Longrightarrow>
   percent_to_step raw ms =
     (let p = max 0 (min 100 ((200 * raw + 255) div 510))
      in Inr (p, if p \<le> 0 then 0 else min ms (- ((- (p * ms)) div 100))))"
  by (simp add: percent_to_step_def byte_to_percent_div step_of_percent_div Let_def)

section \<open>Step to percent\<close>

text \<open>
  Claim C1. For every integer \<open>raw\<close> step, in range or not, and every \<open>max_step\<close> from 1
  to 255, the conversion clamps the step to \<open>0..max_step\<close>, returns the floor of
  \<open>step * 100 / max_step\<close> (which is the integer quotient), and the result lies between 0
  and 100.
\<close>

theorem step_to_percent_clamp_floor_range:
  assumes "1 \<le> ms" "ms \<le> 255"
  shows "\<exists>p. step_to_percent raw ms = Inr p
           \<and> p = \<lfloor>(of_int (max 0 (min ms raw)) * 100 :: rat) / of_int ms\<rfloor>
           \<and> p = (max 0 (min ms raw)) * 100 div ms
           \<and> 0 \<le> p \<and> p \<le> 100"
proof -
  define step where "step = max 0 (min ms raw)"
  have s: "0 \<le> step" "step \<le> ms" using assms by (simp_all add: step_def)
  have eq: "step_to_percent raw ms = Inr (step * 100 div ms)"
    using assms step_to_percent_div [of ms raw] by (simp add: step_def)
  have fl: "step * 100 div ms = \<lfloor>(of_int step * 100 :: rat) / of_int ms\<rfloor>"
    using floor_divide_of_int_eq [of "step * 100" ms, where ?'a = rat] by simp
  have lo: "0 \<le> step * 100 div ms"
    using s assms by (simp add: pos_imp_zdiv_nonneg_iff)
  have "step * 100 div ms \<le> ms * 100 div ms"
    using s assms by (intro zdiv_mono1) simp_all
  then have hi: "step * 100 div ms \<le> 100" using assms by simp
  show ?thesis using eq fl lo hi unfolding step_def by simp
qed

theorem step_to_percent_clamp_floor_range_witness:
  "(1::int) \<le> 3 \<and> (3::int) \<le> 255
   \<and> step_to_percent 7 3 = Inr 100 \<and> step_to_percent (- 2) 3 = Inr 0
   \<and> step_to_percent 2 3 = Inr 66"
proof -
  have h: "(1::int) \<le> 3" "(3::int) \<le> 255" by simp_all
  show ?thesis
    using h step_to_percent_clamp_floor_range [OF h, of 7]
      step_to_percent_clamp_floor_range [OF h, of "- 2"]
      step_to_percent_clamp_floor_range [OF h, of 2]
    by auto
qed

text \<open>
  Claim C9. For a fixed \<open>max_step\<close> from 1 to 255 the conversion is monotonic: a smaller or
  equal step never gives a larger percentage. The full step \<open>max_step\<close> gives 100 for
  every such \<open>max_step\<close>.
\<close>

theorem step_to_percent_mono_full:
  assumes "1 \<le> ms" "ms \<le> 255"
  shows "(step1 \<le> step2 \<longrightarrow>
            (\<exists>p1 p2. step_to_percent step1 ms = Inr p1 \<and> step_to_percent step2 ms = Inr p2
                \<and> p1 \<le> p2))
       \<and> step_to_percent ms ms = Inr 100"
proof -
  have full: "step_to_percent ms ms = Inr 100"
    using assms(1) step_to_percent_div [of ms ms] by simp
  have "max 0 (min ms step1) * 100 div ms \<le> max 0 (min ms step2) * 100 div ms"
    if "step1 \<le> step2"
  proof -
    have "max 0 (min ms step1) * 100 \<le> max 0 (min ms step2) * 100"
      using that by (simp add: max_def min_def)
    then show ?thesis using assms(1) by (intro zdiv_mono1) simp_all
  qed
  then show ?thesis
    using full assms(1) step_to_percent_div [of ms step1] step_to_percent_div [of ms step2]
    by simp
qed

theorem step_to_percent_mono_full_witness:
  "(1::int) \<le> 7 \<and> (7::int) \<le> 255 \<and> (2::int) \<le> 5
   \<and> step_to_percent 2 7 = Inr 28 \<and> step_to_percent 5 7 = Inr 71
   \<and> step_to_percent 7 7 = Inr 100"
proof -
  have h: "(1::int) \<le> 7" "(7::int) \<le> 255" by simp_all
  have v: "step_to_percent 2 7 = Inr 28" "step_to_percent 5 7 = Inr 71"
    by (simp_all add: step_to_percent_div)
  show ?thesis
    using h v step_to_percent_mono_full [OF h, of 2 5] by simp
qed

section \<open>Percent to step\<close>

text \<open>
  Claim C2. For every \<open>max_step\<close> from 1 to 255 the raw byte 0 maps to step 0 and the raw
  byte 255 to step \<open>max_step\<close>. For \<open>max_step = 3\<close>, every raw input whose clamped
  percentage is 33, 34, 66, 67 or 100 gives step 1, 2, 2, 3, 3, and the raw byte 255 gives
  step 3.
\<close>

theorem percent_to_step_endpoints_ceil_cases:
  assumes "1 \<le> ms" "ms \<le> 255"
  shows "percent_to_step 0 ms = Inr (0, 0)
       \<and> percent_to_step 255 ms = Inr (100, ms)
       \<and> (byte_to_percent raw = Inr 33 \<longrightarrow> percent_to_step raw 3 = Inr (33, 1))
       \<and> (byte_to_percent raw = Inr 34 \<longrightarrow> percent_to_step raw 3 = Inr (34, 2))
       \<and> (byte_to_percent raw = Inr 66 \<longrightarrow> percent_to_step raw 3 = Inr (66, 2))
       \<and> (byte_to_percent raw = Inr 67 \<longrightarrow> percent_to_step raw 3 = Inr (67, 3))
       \<and> (byte_to_percent raw = Inr 100 \<longrightarrow> percent_to_step raw 3 = Inr (100, 3))
       \<and> percent_to_step 255 3 = Inr (100, 3)"
proof -
  have n0: "\<not> float_overflows 0" and n255: "\<not> float_overflows 255"
    by (simp_all add: small_no_overflow)
  have a: "percent_to_step 0 ms = Inr (0, 0)"
    by (simp add: percent_to_step_div [OF n0])
  have b: "percent_to_step 255 ms = Inr (100, ms)"
    by (simp add: percent_to_step_div [OF n255])
  have c: "percent_to_step 255 3 = Inr (100, 3)"
    by (simp add: percent_to_step_div [OF n255])
  have d: "step_of_percent 33 3 = 1" "step_of_percent 34 3 = 2" "step_of_percent 66 3 = 2"
    "step_of_percent 67 3 = 3" "step_of_percent 100 3 = 3"
    by (simp_all add: step_of_percent_div)
  show ?thesis using a b c d by (simp add: percent_to_step_def)
qed

theorem percent_to_step_endpoints_ceil_cases_witness:
  "(1::int) \<le> 4 \<and> (4::int) \<le> 255
   \<and> percent_to_step 0 4 = Inr (0, 0) \<and> percent_to_step 255 4 = Inr (100, 4)
   \<and> byte_to_percent 84 = Inr 33 \<and> percent_to_step 84 3 = Inr (33, 1)
   \<and> byte_to_percent 87 = Inr 34 \<and> percent_to_step 87 3 = Inr (34, 2)
   \<and> byte_to_percent 168 = Inr 66 \<and> percent_to_step 168 3 = Inr (66, 2)
   \<and> byte_to_percent 171 = Inr 67 \<and> percent_to_step 171 3 = Inr (67, 3)
   \<and> byte_to_percent 254 = Inr 100 \<and> percent_to_step 254 3 = Inr (100, 3)"
proof -
  have h: "(1::int) \<le> 4" "(4::int) \<le> 255" by simp_all
  have p: "byte_to_percent 84 = Inr 33" "byte_to_percent 87 = Inr 34"
    "byte_to_percent 168 = Inr 66" "byte_to_percent 171 = Inr 67"
    "byte_to_percent 254 = Inr 100"
    by (simp_all add: byte_to_percent_div small_no_overflow)
  show ?thesis
    using h p percent_to_step_endpoints_ceil_cases [OF h, of 84]
      percent_to_step_endpoints_ceil_cases [OF h, of 87]
      percent_to_step_endpoints_ceil_cases [OF h, of 168]
      percent_to_step_endpoints_ceil_cases [OF h, of 171]
      percent_to_step_endpoints_ceil_cases [OF h, of 254]
    by simp
qed

text \<open>
  Claim C3, as stated: for every \<open>max_step\<close> from 1 to 255 and every clamped percentage, a
  percentage of at least 1 gives a step of at least 1, and the step equals \<open>max_step\<close> only
  at 100 percent. The second half fails: with \<open>max_step = 3\<close> the ceiling already reaches
  step 3 at 67 percent (raw byte 171).
\<close>

theorem step_reaches_max_before_100:
  "step_of_percent 67 3 = 3 \<and> (67::int) \<noteq> 100 \<and> percent_to_step 171 3 = Inr (67, 3)"
  by (simp add: step_of_percent_div percent_to_step_div small_no_overflow)

text \<open>
  Claim C3, amended: for every \<open>max_step\<close> from 1 to 255 and every clamped percentage \<open>p\<close>
  in \<open>0..100\<close>, a percentage of at least 1 gives a step of at least 1; the step never
  exceeds \<open>max_step\<close>; 100 percent gives \<open>max_step\<close>; and the step equals \<open>max_step\<close>
  exactly when \<open>p * max_step > 100 * (max_step - 1)\<close>, the top band of the ceiling.
\<close>

theorem step_of_percent_ceil_bands:
  assumes "1 \<le> ms" "ms \<le> 255" "0 \<le> p" "p \<le> 100"
  shows "(1 \<le> p \<longrightarrow> 1 \<le> step_of_percent p ms)
       \<and> step_of_percent p ms \<le> ms
       \<and> step_of_percent 100 ms = ms
       \<and> (step_of_percent p ms = ms \<longleftrightarrow> 100 * (ms - 1) < p * ms)"
proof -
  define c where "c = - ((- (p * ms)) div 100)"
  have c1: "100 * (c - 1) < p * ms" "p * ms \<le> 100 * c"
    unfolding c_def using ceil_div_bounds [of "p * ms"] by blast+
  have hundred: "step_of_percent 100 ms = ms"
    using assms(1) by (simp add: step_of_percent_div)
  have le: "p * ms \<le> 100 * ms" using assms by simp
  have "100 * (c - 1) < 100 * ms" using c1(1) le by (rule less_le_trans)
  then have c_le: "c \<le> ms" by simp
  show ?thesis
  proof (cases "p \<le> 0")
    case True
    with assms have "p = 0" by simp
    then show ?thesis using assms(1) hundred by (simp add: step_of_percent_div)
  next
    case False
    then have pos: "0 < p * ms" using assms(1) by simp
    have s: "step_of_percent p ms = c"
      using False c_le by (simp add: step_of_percent_div c_def)
    have "1 \<le> c" using c1(2) pos by linarith
    moreover have "c = ms \<longleftrightarrow> 100 * (ms - 1) < p * ms"
      using c1 c_le by auto
    ultimately show ?thesis using s c_le hundred by simp
  qed
qed

theorem step_of_percent_ceil_bands_witness:
  "(1::int) \<le> 3 \<and> (3::int) \<le> 255 \<and> (0::int) \<le> 67 \<and> (67::int) \<le> 100 \<and> (1::int) \<le> 67
   \<and> 1 \<le> step_of_percent 67 3 \<and> step_of_percent 67 3 \<le> 3
   \<and> step_of_percent 100 3 = 3 \<and> step_of_percent 67 3 = 3"
  using step_of_percent_ceil_bands [of 3 67] by simp

section \<open>The payload decoder\<close>

lemmas parse_defs = int_of_str_def int_of_bytes_def parse_int_def str_isspace_def
  bytes_isspace_def strip_sign_def strip_prefix16_def digit_value_def first_to_int_def

text \<open>
  Claim C7. The decoder returns a native integer as it is; it decodes \<open>"0x1A"\<close> to 26,
  \<open>"42"\<close> to 42, the list \<open>[7, 9]\<close> to 7 and the byte string \<open>b"\x05"\<close> to 5; for
  \<open>"not-a-number"\<close> and for the empty list it returns \<open>None\<close>.
\<close>

theorem payload_to_int_examples:
  "payload_to_int (PInt n) = Inr (Some n)
   \<and> payload_to_int (PStr ''0x1A'') = Inr (Some 26)
   \<and> payload_to_int (PStr ''42'') = Inr (Some 42)
   \<and> payload_to_int (PList [PInt 7, PInt 9]) = Inr (Some 7)
   \<and> payload_to_int (PBytes [5]) = Inr (Some 5)
   \<and> payload_to_int (PStr ''not-a-number'') = Inr None
   \<and> payload_to_int (PList []) = Inr None"
proof -
  have hex: "payload_to_int (PStr ''0x1A'') = Inr (Some 26)"
    by (simp add: parse_defs)
  have dec: "payload_to_int (PStr ''42'') = Inr (Some 42)"
    by (simp add: parse_defs)
  have seq: "payload_to_int (PList [PInt 7, PInt 9]) = Inr (Some 7)"
    by (simp add: first_to_int_def)
  have byte: "payload_to_int (PBytes [5]) = Inr (Some 5)"
    by simp
  have nan: "payload_to_int (PStr ''not-a-number'') = Inr None"
    by (simp add: parse_defs)
  show ?thesis using hex dec seq byte nan by simp
qed

text \<open>
  Claim C8, as stated: whenever the decoder returns a value, the value is non-negative.
  It fails: a native integer is returned as it is, and a decimal string may carry a minus
  sign.
\<close>

theorem payload_to_int_negative_value:
  "payload_to_int (PInt (- 5)) = Inr (Some (- 5)) \<and> \<not> (0::int) \<le> - 5
   \<and> payload_to_int (PStr ''-5'') = Inr (Some (- 5))"
  by (simp add: parse_defs)

text \<open>Stripping whitespace keeps a subset of the characters and a non-blank head.\<close>

lemma set_strip: "set (rev (dropWhile P (rev (dropWhile P s)))) \<subseteq> set s"
proof -
  have "set (dropWhile P (rev (dropWhile P s))) \<subseteq> set (rev (dropWhile P s))"
    by (auto dest: set_dropWhileD)
  also have "\<dots> \<subseteq> set s" by (auto dest: set_dropWhileD)
  finally show ?thesis by simp
qed

lemma parse_int_negative:
  assumes "parse_int sp base s = Some v" "v < 0"
  shows "45 \<in> set s"
proof -
  define body where "body = rev (dropWhile sp (rev (dropWhile sp s)))"
  have "body \<noteq> [] \<and> hd body = 45"
  proof (rule ccontr)
    assume "\<not> (body \<noteq> [] \<and> hd body = 45)"
    then have "fst (strip_sign body) = False" by (auto simp: strip_sign_def)
    with assms(1) have "0 \<le> v"
      unfolding parse_int_def Let_def body_def [symmetric]
      by (auto split: prod.splits if_splits)
    with assms(2) show False by simp
  qed
  then have "45 \<in> set body" by (metis hd_in_set)
  then show ?thesis using set_strip [of sp s] unfolding body_def by blast
qed

lemma last_dropWhile:
  "xs \<noteq> [] \<Longrightarrow> \<not> P (last xs) \<Longrightarrow> dropWhile P xs \<noteq> [] \<and> last (dropWhile P xs) = last xs"
  by (induction xs) (auto split: if_splits)

lemma hd_strip:
  assumes "s \<noteq> []" "\<not> P (hd s)"
  shows "rev (dropWhile P (rev (dropWhile P s))) \<noteq> []
       \<and> hd (rev (dropWhile P (rev (dropWhile P s)))) = hd s"
proof -
  have d: "dropWhile P s = s" using assms by (cases s) simp_all
  have r: "rev s \<noteq> []" "\<not> P (last (rev s))" using assms by (simp_all add: last_rev)
  from last_dropWhile [of "rev s" P] r have "dropWhile P (rev s) \<noteq> []"
    "last (dropWhile P (rev s)) = hd s" using assms(1) by (simp_all add: last_rev)
  then show ?thesis unfolding d by (simp add: hd_rev)
qed

lemma parse_int_digit_first:
  assumes "parse_int sp base s = Some v" "s \<noteq> []" "\<not> sp (hd s)" "hd s \<noteq> 45"
  shows "0 \<le> v"
proof -
  define body where "body = rev (dropWhile sp (rev (dropWhile sp s)))"
  have "body \<noteq> []" "hd body = hd s"
    using hd_strip [of s sp] assms(2,3) by (simp_all add: body_def)
  with assms(4) have "fst (strip_sign body) = False" by (auto simp: strip_sign_def)
  with assms(1) show ?thesis
    unfolding parse_int_def Let_def body_def [symmetric]
    by (auto split: prod.splits if_splits)
qed

lemma int_of_str_0x:
  assumes "take 2 s = ''0x''" "int_of_str base s = Some v"
  shows "0 \<le> v"
proof -
  from assms(1) obtain r where s: "s = CHR ''0'' # CHR ''x'' # r"
    by (cases s; cases "tl s") auto
  show ?thesis
    using assms(2) unfolding int_of_str_def
    by (rule parse_int_digit_first) (simp_all add: s str_isspace_def bytes_isspace_def)
qed

lemma int_of_str_no_minus:
  assumes "CHR ''-'' \<notin> set s" "int_of_str base s = Some v"
  shows "0 \<le> v"
proof (rule ccontr)
  assume "\<not> 0 \<le> v"
  then have "v < 0" by simp
  with assms(2) have "45 \<in> set (map of_char s :: nat list)"
    unfolding int_of_str_def by (rule parse_int_negative)
  then obtain c where c: "c \<in> set s" "of_char c = (45::nat)" by auto
  have "of_char c = (of_char CHR ''-'' :: nat)" using c(2) by simp
  then have "c = CHR ''-''" by (simp only: of_char_eq_iff)
  with c(1) assms(1) show False by simp
qed

text \<open>
  Claim C8, amended: whenever the decoder returns a value \<open>v\<close>, it is a signed integer
  fixed by the shape of the payload. For a native integer \<open>v\<close> is the payload itself,
  whatever its sign; for a \<open>bool\<close> it is 0 or 1; for \<open>bytes\<close> or a \<open>bytearray\<close> it lies in
  \<open>0..255\<close>; for a string that starts with \<open>0x\<close> or has no minus sign it is
  non-negative; for a non-empty list or tuple it is \<open>int()\<close> of the first element.
\<close>

theorem payload_to_int_value_by_shape:
  assumes "payload_to_int p = Inr (Some v)"
  shows "(\<forall>n. p = PInt n \<longrightarrow> v = n)
       \<and> (\<forall>b. p = PBool b \<longrightarrow> 0 \<le> v \<and> v \<le> 1)
       \<and> (\<forall>bs. p = PBytes bs \<or> p = PByteArray bs \<longrightarrow> 0 \<le> v \<and> v \<le> 255)
       \<and> (\<forall>s. p = PStr s \<longrightarrow> take 2 s = ''0x'' \<or> CHR ''-'' \<notin> set s \<longrightarrow> 0 \<le> v)
       \<and> (\<forall>x xs. p = PList (x # xs) \<or> p = PTuple (x # xs) \<longrightarrow> py_int x = Inr v)"
proof -
  have byte: "0 \<le> uint w \<and> uint w \<le> 255" for w :: "8 word"
    using uint_bounded [of w] by simp
  have str: "0 \<le> v" if "p = PStr s" "take 2 s = ''0x'' \<or> CHR ''-'' \<notin> set s" for s
  proof (cases "take 2 s = ''0x''")
    case True
    with assms that(1) show ?thesis by (auto dest: int_of_str_0x)
  next
    case False
    with assms that show ?thesis by (auto dest: int_of_str_no_minus)
  qed
  have seq: "py_int x = Inr v" if "p = PList (x # xs) \<or> p = PTuple (x # xs)" for x xs
    using assms that by (auto simp: first_to_int_def split: sum.splits if_splits)
  show ?thesis using assms byte str seq by (auto split: if_splits)
qed

theorem payload_to_int_value_by_shape_witness:
  "payload_to_int (PInt (- 5)) = Inr (Some (- 5))
   \<and> payload_to_int (PBool True) = Inr (Some 1) \<and> (0::int) \<le> 1
   \<and> payload_to_int (PBytes [5]) = Inr (Some 5) \<and> (0::int) \<le> 5 \<and> (5::int) \<le> 255
   \<and> payload_to_int (PByteArray [255, 0]) = Inr (Some 255) \<and> (255::int) \<le> 255
   \<and> payload_to_int (PStr ''0x1A'') = Inr (Some 26) \<and> take 2 ''0x1A'' = ''0x''
   \<and> (0::int) \<le> 26
   \<and> payload_to_int (PStr '' 4_2 '') = Inr (Some 42) \<and> CHR ''-'' \<notin> set '' 4_2 ''
   \<and> payload_to_int (PList [PInt 7, PInt 9]) = Inr (Some 7) \<and> py_int (PInt 7) = Inr 7
   \<and> payload_to_int (PTuple [PStr ''-3'']) = Inr (Some (- 3))
   \<and> py_int (PStr ''-3'') = Inr (- 3)"
proof -
  have a: "payload_to_int (PInt (- 5)) = Inr (Some (- 5))" by simp
  have b: "payload_to_int (PBool True) = Inr (Some 1)" by simp
  have c: "payload_to_int (PBytes [5]) = Inr (Some 5)" by simp
  have d: "payload_to_int (PByteArray [255, 0]) = Inr (Some 255)" by simp
  have e: "payload_to_int (PStr ''0x1A'') = Inr (Some 26)" by (simp add: parse_defs)
  have f: "payload_to_int (PStr '' 4_2 '') = Inr (Some 42)" by (simp add: parse_defs)
  have g: "payload_to_int (PList [PInt 7, PInt 9]) = Inr (Some 7)"
    by (simp add: first_to_int_def)
  have h: "payload_to_int (PTuple [PStr ''-3'']) = Inr (Some (- 3))"
    by (simp add: parse_defs)
  show ?thesis
    using a b c d e f g h
      payload_to_int_value_by_shape [OF a] payload_to_int_value_by_shape [OF b]
      payload_to_int_value_by_shape [OF c] payload_to_int_value_by_shape [OF d]
      payload_to_int_value_by_shape [OF e] payload_to_int_value_by_shape [OF f]
      payload_to_int_value_by_shape [OF g] payload_to_int_value_by_shape [OF h]
    by simp
qed

section \<open>Rounding to a double\<close>

text \<open>
  \<open>py_round\<close> stays within a half of its argument and keeps its sign.
\<close>

lemma py_round_near: "\<bar>of_int (py_round y) - y\<bar> \<le> 1 / 2"
proof -
  define d where "d = y - of_int \<lfloor>y\<rfloor>"
  have d: "0 \<le> d" "d < 1" unfolding d_def by linarith+
  have y: "y = of_int \<lfloor>y\<rfloor> + d" by (simp add: d_def)
  consider "d < 1 / 2" "py_round y = \<lfloor>y\<rfloor>"
    | "1 / 2 < d" "py_round y = \<lfloor>y\<rfloor> + 1"
    | "d = 1 / 2" "py_round y = \<lfloor>y\<rfloor> \<or> py_round y = \<lfloor>y\<rfloor> + 1"
    unfolding py_round_def Let_def d_def [symmetric] by (cases "d < 1 / 2"; cases "1 / 2 < d") auto
  then show ?thesis
  proof cases
    case 1
    have "of_int (py_round y) - y = - d" using y 1(2) by simp
    then show ?thesis using d 1(1) by simp
  next
    case 2
    have "of_int (py_round y) - y = 1 - d" using y 2(2) by simp
    then show ?thesis using d 2(1) by simp
  next
    case 3
    then have "of_int (py_round y) - y = - d \<or> of_int (py_round y) - y = 1 - d"
      using y by auto
    then show ?thesis using 3(1) by auto
  qed
qed

lemma py_round_nonneg: "0 \<le> y \<Longrightarrow> 0 \<le> py_round y"
  unfolding py_round_def Let_def by (auto simp: zero_le_floor intro: add_nonneg_nonneg)

lemma py_round_nonpos: "y \<le> 0 \<Longrightarrow> py_round y \<le> 0"
proof -
  assume "y \<le> 0"
  with py_round_near [of y] have "(of_int (py_round y) :: rat) \<le> 1 / 2" by (simp add: abs_if split: if_splits)
  then have "(of_int (py_round y) :: rat) < of_int 1" by simp
  then have "py_round y < 1" by (simp only: of_int_less_iff)
  then show ?thesis by simp
qed

text \<open>
  \<open>fexp\<close> is the binary exponent: \<open>2 ^ fexp x \<le> \<bar>x\<bar> < 2 ^ (fexp x + 1)\<close>.
\<close>

lemma bit_length_gt: "n < 2 ^ bit_length n"
proof (induction n rule: bit_length.induct)
  case (1 n)
  show ?case
  proof (cases "n = 0")
    case True
    then show ?thesis by (simp add: bit_length.simps)
  next
    case False
    with 1 have "n div 2 < 2 ^ bit_length (n div 2)" by simp
    then have "n < 2 * 2 ^ bit_length (n div 2)" by linarith
    with False show ?thesis by (simp add: bit_length.simps [of n])
  qed
qed

lemma bit_length_le: "0 < n \<Longrightarrow> 2 ^ (bit_length n - 1) \<le> n"
proof (induction n rule: bit_length.induct)
  case (1 n)
  show ?case
  proof (cases "n div 2 = 0")
    case True
    with 1(2) have "n = 1" by linarith
    then show ?thesis by (simp add: bit_length.simps)
  next
    case False
    then have pos: "0 < n div 2" by simp
    with 1 have ih: "2 ^ (bit_length (n div 2) - 1) \<le> n div 2" by simp
    from pos have "0 < bit_length (n div 2)" by (simp add: bit_length.simps [of "n div 2"])
    then have "bit_length n - 1 = Suc (bit_length (n div 2) - 1)"
      using 1(2) by (simp add: bit_length.simps [of n])
    then have "2 ^ (bit_length n - 1) = 2 * 2 ^ (bit_length (n div 2) - 1)" by simp
    also have "\<dots> \<le> 2 * (n div 2)" using ih by simp
    also have "\<dots> \<le> n" by simp
    finally show ?thesis .
  qed
qed


lemma fexp_lower:
  assumes "x \<noteq> 0"
  shows "2 powi fexp x \<le> \<bar>x\<bar>"
proof (cases "1 \<le> \<bar>x\<bar>")
  case True
  define n where "n = nat \<lfloor>\<bar>x\<bar>\<rfloor>"
  from True have fl: "1 \<le> \<lfloor>\<bar>x\<bar>\<rfloor>" by (simp add: le_floor_iff)
  then have n: "0 < n" "of_nat n = (of_int \<lfloor>\<bar>x\<bar>\<rfloor> :: rat)" by (simp_all add: n_def)
  from n(1) have bl: "0 < bit_length n" by (simp add: bit_length.simps [of n])
  then have e: "fexp x = int (bit_length n - 1)"
    using True by (simp add: fexp_def n_def [symmetric])
  have "(2::rat) ^ (bit_length n - 1) = of_nat (2 ^ (bit_length n - 1))" by simp
  also have "\<dots> \<le> of_nat n" using bit_length_le [OF n(1)] by (simp only: of_nat_le_iff)
  also have "\<dots> \<le> \<bar>x\<bar>" unfolding n(2) by (rule of_int_floor_le)
  finally show ?thesis by (simp add: e)
next
  case False
  with assms have x: "0 < \<bar>x\<bar>" "\<bar>x\<bar> < 1" by simp_all
  define c where "c = \<lceil>1 / \<bar>x\<bar>\<rceil>"
  define k where "k = bit_length (nat (c - 1))"
  have e: "fexp x = - int k" using False by (simp add: fexp_def c_def k_def)
  have inv: "1 / \<bar>x\<bar> \<le> of_int c" unfolding c_def by (rule le_of_int_ceiling)
  have "nat (c - 1) < 2 ^ k" unfolding k_def by (rule bit_length_gt)
  then have "c - 1 < 2 ^ k" by (simp add: nat_less_iff)
  then have "c \<le> 2 ^ k" by simp
  then have "(of_int c :: rat) \<le> of_int (2 ^ k)" by (simp only: of_int_le_iff)
  also have "(of_int (2 ^ k) :: rat) = 2 ^ k" by simp
  finally have "(of_int c :: rat) \<le> 2 ^ k" .
  with inv have "1 / \<bar>x\<bar> \<le> 2 ^ k" by (rule order_trans)
  then have "1 \<le> 2 ^ k * \<bar>x\<bar>" using x(1) by (simp add: field_simps)
  then have "1 / 2 ^ k \<le> \<bar>x\<bar>" by (simp add: field_simps)
  then show ?thesis by (simp add: e power_int_minus field_simps)
qed

lemma fexp_upper:
  assumes "x \<noteq> 0"
  shows "\<bar>x\<bar> < 2 powi (fexp x + 1)"
proof (cases "1 \<le> \<bar>x\<bar>")
  case True
  define n where "n = nat \<lfloor>\<bar>x\<bar>\<rfloor>"
  from True have fl: "1 \<le> \<lfloor>\<bar>x\<bar>\<rfloor>" by (simp add: le_floor_iff)
  then have n: "of_nat n = (of_int \<lfloor>\<bar>x\<bar>\<rfloor> :: rat)" by (simp add: n_def)
  have e: "fexp x + 1 = int (bit_length n)"
    using True by (simp add: fexp_def n_def [symmetric])
  have "n + 1 \<le> 2 ^ bit_length n" using bit_length_gt [of n] by simp
  then have "(of_nat (n + 1) :: rat) \<le> of_nat (2 ^ bit_length n)" by (simp only: of_nat_le_iff)
  then have "of_int \<lfloor>\<bar>x\<bar>\<rfloor> + 1 \<le> (2::rat) ^ bit_length n" using n by simp
  moreover have "\<bar>x\<bar> < of_int \<lfloor>\<bar>x\<bar>\<rfloor> + 1" by linarith
  ultimately show ?thesis by (simp add: e)
next
  case False
  with assms have x: "0 < \<bar>x\<bar>" "\<bar>x\<bar> < 1" by simp_all
  define c where "c = \<lceil>1 / \<bar>x\<bar>\<rceil>"
  define k where "k = bit_length (nat (c - 1))"
  have e: "fexp x = - int k" using False by (simp add: fexp_def c_def k_def)
  from x have "1 < 1 / \<bar>x\<bar>" by simp
  then have c2: "2 \<le> c" unfolding c_def by (simp add: le_ceiling_iff)
  then have pos: "0 < nat (c - 1)" by simp
  then have kpos: "0 < k" unfolding k_def by (simp add: bit_length.simps [of "nat (c - 1)"])
  have "2 ^ (k - 1) \<le> nat (c - 1)" unfolding k_def using pos by (rule bit_length_le)
  then have "(of_nat (2 ^ (k - 1)) :: rat) \<le> of_nat (nat (c - 1))" by (simp only: of_nat_le_iff)
  then have "(2::rat) ^ (k - 1) \<le> of_int c - 1" using c2 by simp
  moreover have "of_int c - 1 < 1 / \<bar>x\<bar>" unfolding c_def by linarith
  ultimately have "(2::rat) ^ (k - 1) < 1 / \<bar>x\<bar>" by simp
  then have "\<bar>x\<bar> * 2 ^ (k - 1) < 1" using x(1) by (simp add: field_simps)
  then have lt: "\<bar>x\<bar> < 1 / 2 ^ (k - 1)" by (simp add: field_simps)
  have "fexp x + 1 = - int (k - 1)" using kpos by (simp add: e)
  then have "2 powi (fexp x + 1) = (1 / 2 ^ (k - 1) :: rat)"
    by (simp add: power_int_minus field_simps)
  with lt show ?thesis by simp
qed

text \<open>
  Rounding moves a value by at most half a unit in the last place, which is at most
  \<open>2 ^ -52\<close> of the value (or \<open>2 ^ -1074\<close>), and keeps its sign.
\<close>

lemma ulp_pos: "0 < ulp x"
  by (simp add: ulp_def)

lemma ulp_le:
  assumes "x \<noteq> 0"
  shows "ulp x \<le> max (\<bar>x\<bar> / 2 ^ 52) (1 / 2 ^ 1074)"
proof (cases "- 1074 \<le> fexp x - 52")
  case True
  then have m: "max (fexp x - 52) (- 1074) = fexp x + (- 52)" by simp
  have "ulp x = 2 powi (fexp x + (- 52))" by (simp only: ulp_def m)
  also have "\<dots> = 2 powi fexp x * 2 powi (- 52)" by (rule power_int_add) simp
  also have "\<dots> = 2 powi fexp x / 2 ^ 52" by (simp add: power_int_minus field_simps)
  also have "\<dots> \<le> \<bar>x\<bar> / 2 ^ 52" using fexp_lower [OF assms] by (simp add: divide_right_mono)
  finally show ?thesis by simp
next
  case False
  then have m: "max (fexp x - 52) (- 1074) = - 1074" by simp
  have "ulp x = 2 powi (- 1074)" by (simp only: ulp_def m)
  then have "ulp x = 1 / 2 ^ 1074" by (simp add: power_int_minus field_simps)
  then show ?thesis by simp
qed

lemma round_finite_near: "\<bar>round_finite x - x\<bar> \<le> ulp x / 2"
proof -
  define u where "u = ulp x"
  have u: "0 < u" unfolding u_def by (rule ulp_pos)
  have "round_finite x - x = (of_int (py_round (x / u)) - x / u) * u"
    using u by (simp add: round_finite_def u_def [symmetric] field_simps)
  then have "\<bar>round_finite x - x\<bar> = \<bar>of_int (py_round (x / u)) - x / u\<bar> * u"
    using u by (simp add: abs_mult)
  also have "\<dots> \<le> 1 / 2 * u"
    using py_round_near [of "x / u"] u by (intro mult_right_mono) simp_all
  finally show ?thesis by (simp add: u_def)
qed

lemma round_finite_nonneg: "0 \<le> x \<Longrightarrow> 0 \<le> round_finite x"
  using ulp_pos [of x] by (simp add: round_finite_def py_round_nonneg)

lemma round_finite_nonpos: "x \<le> 0 \<Longrightarrow> round_finite x \<le> 0"
  using ulp_pos [of x] py_round_nonpos [of "x / ulp x"]
  by (simp add: round_finite_def mult_le_0_iff divide_le_0_iff)


text \<open>
  What the debounce test needs: against a window of 0 no difference of a later and an
  earlier reading is suppressed; against a window of one half every difference up to
  0.45 is below the window after rounding and every difference from 0.55 is not.
\<close>

lemma round_finite_zero: "round_finite 0 = 0"
  by (simp add: round_finite_def py_round_def)

lemma zero_window: "0 \<le> x \<Longrightarrow> \<not> float_less (round_double x) 0"
  using round_finite_nonneg [of x] by (simp add: round_double_def Let_def)

lemma half_window_below:
  assumes "x \<le> 9 / 20"
  shows "float_less (round_double x) (1 / 2)"
proof (cases "0 < x")
  case True
  then have nz: "x \<noteq> 0" by simp
  have a: "\<bar>x\<bar> / 2 ^ 52 \<le> 1 / 20" using True assms by simp
  have b: "(1::rat) / 2 ^ 1074 \<le> 1 / 20" by simp
  from ulp_le [OF nz] a b have u: "ulp x \<le> 1 / 20" by simp
  have lo: "0 \<le> round_finite x" using True by (simp add: round_finite_nonneg)
  have "round_finite x - x \<le> ulp x / 2" using round_finite_near [of x] by linarith
  with u assms have hi: "round_finite x < 1 / 2" by simp
  have "(1::rat) / 2 \<le> 2 ^ 1024" by simp
  with hi lo have "\<not> 2 ^ 1024 \<le> \<bar>round_finite x\<bar>" by simp
  with hi show ?thesis by (simp add: round_double_def Let_def)
next
  case False
  then have le: "x \<le> 0" by simp
  then have r: "round_finite x \<le> 0" by (rule round_finite_nonpos)
  show ?thesis
  proof (cases "2 ^ 1024 \<le> \<bar>round_finite x\<bar>")
    case True
    then have "x \<noteq> 0" by (auto simp: round_finite_zero)
    with le have "x < 0" by simp
    with True show ?thesis by (simp add: round_double_def Let_def)
  next
    case False
    with r show ?thesis by (simp add: round_double_def Let_def)
  qed
qed

lemma half_window_above:
  assumes "11 / 20 \<le> x"
  shows "\<not> float_less (round_double x) (1 / 2)"
proof -
  from assms have pos: "0 < x" and nz: "x \<noteq> 0" by simp_all
  have "(1::rat) / 2 ^ 1074 \<le> 11 / 20 / 2 ^ 52" by simp
  also have "\<dots> \<le> \<bar>x\<bar> / 2 ^ 52" using assms pos by (simp add: divide_right_mono)
  finally have "max (\<bar>x\<bar> / 2 ^ 52) (1 / 2 ^ 1074) = \<bar>x\<bar> / 2 ^ 52" by simp
  with ulp_le [OF nz] have u: "ulp x \<le> x / 2 ^ 52" using pos by simp
  have "x - round_finite x \<le> ulp x / 2" using round_finite_near [of x] by linarith
  with u have "x - x / 2 ^ 52 / 2 \<le> round_finite x" by simp
  moreover have "1 / 2 \<le> x - x / 2 ^ 52 / 2" using assms by simp
  ultimately have r: "1 / 2 \<le> round_finite x" by simp
  show ?thesis
  proof (cases "2 ^ 1024 \<le> \<bar>round_finite x\<bar>")
    case True
    with pos show ?thesis by (simp add: round_double_def Let_def)
  next
    case False
    with r show ?thesis by (simp add: round_double_def Let_def)
  qed
qed

text \<open>
  The constructor on the default 500 ms, on 0 ms and on 300 ms; the last window is the
  double nearest to 0.3, which is below the rational \<open>3 / 10\<close>.
\<close>

lemma schema_no_overflow: "\<bar>n\<bar> \<le> 5000 \<Longrightarrow> \<not> float_overflows n"
proof -
  have "(5000::int) < 2 ^ 1024 - 2 ^ 970" by simp
  then show "\<bar>n\<bar> \<le> 5000 \<Longrightarrow> ?thesis" unfolding float_overflows_def by linarith
qed

lemma round_finite_500: "round_finite 500 = 500" by code_simp
lemma round_finite_half: "round_finite (1 / 2) = 1 / 2" by code_simp
lemma round_finite_300: "round_finite 300 = 300" by code_simp
lemma round_finite_3_10: "round_finite (3 / 10) = 5404319552844595 / 18014398509481984"
  by code_simp
lemma round_finite_tie:
  "round_finite (5404319552844595 / 9007199254740992 - 3602879701896397 / 36028797018963968)
   = 1 / 2"
  by code_simp

lemma manager_500: "KnxStepBridgeManager 500 = Inr \<lparr>bridges = [], debounce = 1 / 2\<rparr>"
  by (simp add: KnxStepBridgeManager_def schema_no_overflow round_finite_500 round_finite_half)

lemma manager_0: "KnxStepBridgeManager 0 = Inr \<lparr>bridges = [], debounce = 0\<rparr>"
  by (simp add: KnxStepBridgeManager_def schema_no_overflow round_finite_zero)

lemma manager_300:
  "KnxStepBridgeManager 300 =
     Inr \<lparr>bridges = [], debounce = 5404319552844595 / 18014398509481984\<rparr>"
  by (simp add: KnxStepBridgeManager_def schema_no_overflow round_finite_300 round_finite_3_10)

section \<open>The event handler\<close>

subsection \<open>The registry lookup\<close>

lemma find_bridge_Some:
  "find_bridge_by_address bs a = Some i \<Longrightarrow>
   i < length bs \<and> (a = step_address (bs ! i) \<or> a = percent_address (bs ! i))"
proof (induction bs arbitrary: i)
  case Nil
  then show ?case by simp
next
  case (Cons b bs)
  show ?case
  proof (cases "a = step_address b \<or> a = percent_address b")
    case True
    with Cons.prems have "i = 0" by auto
    with True show ?thesis by auto
  next
    case False
    with Cons.prems obtain j where j: "find_bridge_by_address bs a = Some j" "i = Suc j"
      by auto
    from Cons.IH [OF j(1)] j(2) show ?thesis by simp
  qed
qed

lemma find_bridge_None:
  "find_bridge_by_address bs a = None \<longleftrightarrow>
   (\<forall>b \<in> set bs. a \<noteq> step_address b \<and> a \<noteq> percent_address b)"
  by (induction bs) auto

subsection \<open>The paths through the handler\<close>

lemma handle_no_address:
  "event_address ev = None \<Longrightarrow> handle_knx_event m now ns ev = Inr (m, [])"
  by (simp add: handle_knx_event_def)

lemma handle_missing:
  "event_address ev = Some a \<Longrightarrow> a = [] \<or> ev_data ev = PNone \<Longrightarrow>
   handle_knx_event m now ns ev = Inr (m, [])"
  by (simp add: handle_knx_event_def)

lemma handle_no_bridge:
  "event_address ev = Some a \<Longrightarrow> find_bridge_by_address (bridges m) a = None \<Longrightarrow>
   handle_knx_event m now ns ev = Inr (m, [])"
  by (simp add: handle_knx_event_def)

lemma handle_undecodable:
  "payload_to_int (ev_data ev) = Inr None \<Longrightarrow> handle_knx_event m now ns ev = Inr (m, [])"
  by (simp add: handle_knx_event_def Let_def split: option.splits)

lemma handle_reached:
  assumes "event_address ev = Some a" "a \<noteq> []" "ev_data ev \<noteq> PNone"
    "find_bridge_by_address (bridges m) a = Some i"
    "payload_to_int (ev_data ev) = Inr (Some raw)"
  shows "handle_knx_event m now ns ev =
     (if a = step_address (bridges m ! i) then
        if float_less (float_sub now (last_sent_step_ts (bridges m ! i))) (debounce m)
        then Inr (m, [])
        else case step_to_percent raw (max_step (bridges m ! i)) of
               Inl e \<Rightarrow> Inl e
             | Inr p \<Rightarrow>
                 Inr (m\<lparr>bridges := (bridges m)
                         [i := (bridges m ! i)\<lparr>last_sent_percent_ts := ns\<rparr>]\<rparr>,
                      [\<lparr>send_address = percent_address (bridges m ! i),
                        send_payload = max 0 (min 100 p), send_type = ''percent''\<rparr>])
      else
        if float_less (float_sub now (last_sent_percent_ts (bridges m ! i))) (debounce m)
        then Inr (m, [])
        else case percent_to_step raw (max_step (bridges m ! i)) of
               Inl e \<Rightarrow> Inl e
             | Inr (p, st) \<Rightarrow>
                 Inr (m\<lparr>bridges := (bridges m)
                         [i := (bridges m ! i)\<lparr>last_sent_step_ts := ns\<rparr>]\<rparr>,
                      [\<lparr>send_address = step_address (bridges m ! i),
                        send_payload = max 0 (min (max_step (bridges m ! i)) st),
                        send_type = ''1byte_unsigned''\<rparr>]))"
proof -
  have addr: "a = step_address (bridges m ! i) \<or> a = percent_address (bridges m ! i)"
    using find_bridge_Some [OF assms(4)] by simp
  show ?thesis
  proof (cases "a = step_address (bridges m ! i)")
    case True
    with assms show ?thesis
      by (simp add: handle_knx_event_def Let_def send_percent_def split: sum.splits)
  next
    case False
    with addr have "a = percent_address (bridges m ! i)" by simp
    with False assms show ?thesis
      by (simp add: handle_knx_event_def Let_def send_step_def split: sum.splits prod.splits)
  qed
qed

text \<open>Every normal return is a drop, a percent send or a step send.\<close>

lemma handle_shape:
  assumes "handle_knx_event m now ns ev = Inr (m', sends)"
  shows "(m' = m \<and> sends = [])
       \<or> (\<exists>i a raw p. event_address ev = Some a
             \<and> find_bridge_by_address (bridges m) a = Some i
             \<and> payload_to_int (ev_data ev) = Inr (Some raw)
             \<and> a = step_address (bridges m ! i)
             \<and> step_to_percent raw (max_step (bridges m ! i)) = Inr p
             \<and> m' = m\<lparr>bridges := (bridges m)[i := (bridges m ! i)\<lparr>last_sent_percent_ts := ns\<rparr>]\<rparr>
             \<and> sends = [\<lparr>send_address = percent_address (bridges m ! i),
                          send_payload = max 0 (min 100 p), send_type = ''percent''\<rparr>])
       \<or> (\<exists>i a raw p st. event_address ev = Some a
             \<and> find_bridge_by_address (bridges m) a = Some i
             \<and> payload_to_int (ev_data ev) = Inr (Some raw)
             \<and> a = percent_address (bridges m ! i)
             \<and> percent_to_step raw (max_step (bridges m ! i)) = Inr (p, st)
             \<and> m' = m\<lparr>bridges := (bridges m)[i := (bridges m ! i)\<lparr>last_sent_step_ts := ns\<rparr>]\<rparr>
             \<and> sends = [\<lparr>send_address = step_address (bridges m ! i),
                          send_payload = max 0 (min (max_step (bridges m ! i)) st),
                          send_type = ''1byte_unsigned''\<rparr>])"
  using assms unfolding handle_knx_event_def Let_def send_percent_def send_step_def
  by (auto split: option.splits sum.splits if_splits prod.splits)

lemma stamp_percent_frame:
  assumes "i < length bs"
  shows "length (bs[i := (bs ! i)\<lparr>last_sent_percent_ts := t\<rparr>]) = length bs
       \<and> (\<forall>j<length bs.
             name (bs[i := (bs ! i)\<lparr>last_sent_percent_ts := t\<rparr>] ! j) = name (bs ! j)
           \<and> step_address (bs[i := (bs ! i)\<lparr>last_sent_percent_ts := t\<rparr>] ! j) = step_address (bs ! j)
           \<and> percent_address (bs[i := (bs ! i)\<lparr>last_sent_percent_ts := t\<rparr>] ! j) = percent_address (bs ! j)
           \<and> max_step (bs[i := (bs ! i)\<lparr>last_sent_percent_ts := t\<rparr>] ! j) = max_step (bs ! j)
           \<and> last_sent_step_ts (bs[i := (bs ! i)\<lparr>last_sent_percent_ts := t\<rparr>] ! j) = last_sent_step_ts (bs ! j))"
  using assms by (simp add: nth_list_update)

lemma stamp_step_frame:
  assumes "i < length bs"
  shows "length (bs[i := (bs ! i)\<lparr>last_sent_step_ts := t\<rparr>]) = length bs
       \<and> (\<forall>j<length bs.
             name (bs[i := (bs ! i)\<lparr>last_sent_step_ts := t\<rparr>] ! j) = name (bs ! j)
           \<and> step_address (bs[i := (bs ! i)\<lparr>last_sent_step_ts := t\<rparr>] ! j) = step_address (bs ! j)
           \<and> percent_address (bs[i := (bs ! i)\<lparr>last_sent_step_ts := t\<rparr>] ! j) = percent_address (bs ! j)
           \<and> max_step (bs[i := (bs ! i)\<lparr>last_sent_step_ts := t\<rparr>] ! j) = max_step (bs ! j)
           \<and> last_sent_percent_ts (bs[i := (bs ! i)\<lparr>last_sent_step_ts := t\<rparr>] ! j) = last_sent_percent_ts (bs ! j))"
  using assms by (simp add: nth_list_update)

lemmas eval_defs = handle_knx_event_def event_address_def add_bridge_def
  Bridge_def send_percent_def send_step_def float_sub_def zero_window
  half_window_below half_window_above
  step_to_percent_div percent_to_step_div small_no_overflow valid_config_def

text \<open>
  An exception of the decoder leaves the handler (or the event was dropped before the
  decoder ran); no send is dispatched on that path. An infinite float as the first
  element of a list is such a payload.
\<close>

lemma handle_decoder_raises:
  "payload_to_int (ev_data ev) = Inl e \<Longrightarrow>
   handle_knx_event m now ns ev = Inl e \<or> handle_knx_event m now ns ev = Inr (m, [])"
  by (simp add: handle_knx_event_def Let_def split: option.splits)

lemma handle_infinite_float:
  "handle_knx_event (add_bridge \<lparr>bridges = [], debounce = 0\<rparr> (Bridge ''fan'' ''A'' ''B'' 4)) 10 11
     \<lparr>ev_address = Some ''A'', ev_destination = None,
      ev_data = PList [PFloat (Infinity False)]\<rparr> = Inl OverflowError"
  by (simp add: eval_defs first_to_int_def)

text \<open>
  The end-to-end scenario with a debounce of 0 and \<open>max_step = 4\<close>: step 2 on \<open>A\<close> sends
  50 percent to \<open>B\<close>; the raw byte 255 on \<open>B\<close> then sends step 4 to \<open>A\<close>.
\<close>

lemma end_to_end_scenario:
  "handle_knx_event (add_bridge \<lparr>bridges = [], debounce = 0\<rparr> (Bridge ''fan'' ''A'' ''B'' 4)) 10 11 \<lparr>ev_address = Some ''A'', ev_destination = None, ev_data = PInt 2\<rparr> = Inr (\<lparr>bridges = [\<lparr>name = ''fan'', step_address = ''A'', percent_address = ''B'', max_step = 4,
        last_sent_step_ts = 0, last_sent_percent_ts = 11\<rparr>], debounce = 0\<rparr>, [\<lparr>send_address = ''B'', send_payload = 50, send_type = ''percent''\<rparr>])
   \<and> handle_knx_event \<lparr>bridges = [\<lparr>name = ''fan'', step_address = ''A'', percent_address = ''B'', max_step = 4,
        last_sent_step_ts = 0, last_sent_percent_ts = 11\<rparr>], debounce = 0\<rparr> 12 13 \<lparr>ev_address = None, ev_destination = Some ''B'', ev_data = PInt 255\<rparr> = Inr (\<lparr>bridges = [\<lparr>name = ''fan'', step_address = ''A'', percent_address = ''B'', max_step = 4,
        last_sent_step_ts = 13, last_sent_percent_ts = 11\<rparr>], debounce = 0\<rparr>, [\<lparr>send_address = ''A'', send_payload = 4, send_type = ''1byte_unsigned''\<rparr>])"
  by (simp add: eval_defs)

subsection \<open>Debounce\<close>

text \<open>
  Claim C4. An event reaches the debounce check when it has an address and a payload, the
  address resolves to a bridge and the payload decodes. Such an event is suppressed (the
  handler returns with no send and the manager as it was) if and only if \<open>now\<close> minus the
  last-sent timestamp of the matching direction (\<open>last_sent_step_ts\<close> on the step address,
  \<open>last_sent_percent_ts\<close> on the percent address), computed in double precision as the
  source computes it, is strictly less than the debounce window. In particular, with a
  window of half a second an event on the step address whose clock reading is 0.3 s
  after the last step-direction send (any difference of the readings up to 0.45 s) is
  suppressed, and one whose reading is 0.6 s after it (any difference from 0.55 s) is
  processed, with a percent send. (An event that is not suppressed can still end in an
  exception instead of a send; that is not a suppression.)
\<close>

theorem debounce_suppresses_iff:
  assumes "event_address ev = Some a" "a \<noteq> []" "ev_data ev \<noteq> PNone"
    "find_bridge_by_address (bridges m) a = Some i"
    "payload_to_int (ev_data ev) = Inr (Some raw)"
  shows "(handle_knx_event m now ns ev = Inr (m, []) \<longleftrightarrow>
            float_less
              (float_sub now (if a = step_address (bridges m ! i)
                              then last_sent_step_ts (bridges m ! i)
                              else last_sent_percent_ts (bridges m ! i)))
              (debounce m))
       \<and> (a = step_address (bridges m ! i) \<and> debounce m = 1 / 2
            \<and> now - last_sent_step_ts (bridges m ! i) \<le> 9 / 20 \<longrightarrow>
            handle_knx_event m now ns ev = Inr (m, []))
       \<and> (a = step_address (bridges m ! i) \<and> debounce m = 1 / 2
            \<and> 11 / 20 \<le> now - last_sent_step_ts (bridges m ! i)
            \<and> max_step (bridges m ! i) \<noteq> 0 \<longrightarrow>
            (\<exists>p. step_to_percent raw (max_step (bridges m ! i)) = Inr p
               \<and> handle_knx_event m now ns ev =
                   Inr (m\<lparr>bridges := (bridges m)
                           [i := (bridges m ! i)\<lparr>last_sent_percent_ts := ns\<rparr>]\<rparr>,
                        [\<lparr>send_address = percent_address (bridges m ! i),
                          send_payload = max 0 (min 100 p), send_type = ''percent''\<rparr>])))"
proof -
  note reached = handle_reached [OF assms]
  have iff: "handle_knx_event m now ns ev = Inr (m, []) \<longleftrightarrow>
      float_less
        (float_sub now (if a = step_address (bridges m ! i)
                        then last_sent_step_ts (bridges m ! i)
                        else last_sent_percent_ts (bridges m ! i)))
        (debounce m)"
    by (simp add: reached split: sum.splits prod.splits)
  have early: "handle_knx_event m now ns ev = Inr (m, [])"
    if "a = step_address (bridges m ! i)" "debounce m = 1 / 2"
      "now - last_sent_step_ts (bridges m ! i) \<le> 9 / 20"
  proof -
    from that(3)
    have "float_less (round_double (now - last_sent_step_ts (bridges m ! i))) (1 / 2)"
      by (rule half_window_below)
    then have "float_less (float_sub now (last_sent_step_ts (bridges m ! i))) (debounce m)"
      by (simp only: float_sub_def that(2))
    with that(1) show ?thesis by (simp add: reached)
  qed
  have late: "\<exists>p. step_to_percent raw (max_step (bridges m ! i)) = Inr p
               \<and> handle_knx_event m now ns ev =
                   Inr (m\<lparr>bridges := (bridges m)
                           [i := (bridges m ! i)\<lparr>last_sent_percent_ts := ns\<rparr>]\<rparr>,
                        [\<lparr>send_address = percent_address (bridges m ! i),
                          send_payload = max 0 (min 100 p), send_type = ''percent''\<rparr>])"
    if "a = step_address (bridges m ! i)" "debounce m = 1 / 2"
      "11 / 20 \<le> now - last_sent_step_ts (bridges m ! i)" "max_step (bridges m ! i) \<noteq> 0"
  proof -
    from that(3)
    have "\<not> float_less (round_double (now - last_sent_step_ts (bridges m ! i))) (1 / 2)"
      by (rule half_window_above)
    then have "\<not> float_less (float_sub now (last_sent_step_ts (bridges m ! i))) (debounce m)"
      by (simp only: float_sub_def that(2) not_False_eq_True)
    with that(1) show ?thesis
      using step_to_percent_div [OF that(4), of raw] by (simp add: reached)
  qed
  show ?thesis using iff early late by blast
qed

text \<open>
  The scenario, with the window of the default 500 ms: a percent event on \<open>B\<close> is
  answered by a step send at the reading 10; the echo on \<open>A\<close> at the reading 10.3 is
  suppressed, an event on \<open>A\<close> at the reading 10.6 is converted. The readings are the
  doubles nearest to 10.3 and 10.6.
\<close>

theorem debounce_suppresses_iff_witness:
  "KnxStepBridgeManager 500 = Inr \<lparr>bridges = [], debounce = 1 / 2\<rparr>
   \<and> handle_knx_event (add_bridge \<lparr>bridges = [], debounce = 1 / 2\<rparr> (Bridge ''fan'' ''A'' ''B'' 4)) 10 10
        \<lparr>ev_address = None, ev_destination = Some ''B'', ev_data = PInt 255\<rparr> =
      Inr (\<lparr>bridges =
        [\<lparr>name = ''fan'', step_address = ''A'', percent_address = ''B'', max_step = 4,
         last_sent_step_ts = 10, last_sent_percent_ts = 0\<rparr>],
      debounce = 1 / 2\<rparr>,
           [\<lparr>send_address = ''A'', send_payload = 4, send_type = ''1byte_unsigned''\<rparr>])
   \<and> handle_knx_event
        \<lparr>bridges =
        [\<lparr>name = ''fan'', step_address = ''A'', percent_address = ''B'', max_step = 4,
         last_sent_step_ts = 10, last_sent_percent_ts = 0\<rparr>],
      debounce = 1 / 2\<rparr>
        (2899192260119757 / 281474976710656) 11
        \<lparr>ev_address = Some ''A'', ev_destination = None, ev_data = PStr ''0x02''\<rparr> =
      Inr (\<lparr>bridges =
        [\<lparr>name = ''fan'', step_address = ''A'', percent_address = ''B'', max_step = 4,
         last_sent_step_ts = 10, last_sent_percent_ts = 0\<rparr>],
      debounce = 1 / 2\<rparr>, [])
   \<and> handle_knx_event
        \<lparr>bridges =
        [\<lparr>name = ''fan'', step_address = ''A'', percent_address = ''B'', max_step = 4,
         last_sent_step_ts = 10, last_sent_percent_ts = 0\<rparr>],
      debounce = 1 / 2\<rparr>
        (5967269506265907 / 562949953421312) 11
        \<lparr>ev_address = Some ''A'', ev_destination = None, ev_data = PStr ''0x02''\<rparr> =
      Inr (\<lparr>bridges =
        [\<lparr>name = ''fan'', step_address = ''A'', percent_address = ''B'', max_step = 4,
         last_sent_step_ts = 10, last_sent_percent_ts = 11\<rparr>],
      debounce = 1 / 2\<rparr>,
           [\<lparr>send_address = ''B'', send_payload = 50, send_type = ''percent''\<rparr>])"
proof -
  let ?M1 = "\<lparr>bridges =
        [\<lparr>name = ''fan'', step_address = ''A'', percent_address = ''B'', max_step = 4,
         last_sent_step_ts = 10, last_sent_percent_ts = 0\<rparr>],
      debounce = 1 / 2\<rparr>"
  let ?EVA = "\<lparr>ev_address = Some ''A'', ev_destination = None, ev_data = PStr ''0x02''\<rparr>"
  have first: "handle_knx_event (add_bridge \<lparr>bridges = [], debounce = 1 / 2\<rparr> (Bridge ''fan'' ''A'' ''B'' 4)) 10 10
        \<lparr>ev_address = None, ev_destination = Some ''B'', ev_data = PInt 255\<rparr> =
      Inr (?M1, [\<lparr>send_address = ''A'', send_payload = 4, send_type = ''1byte_unsigned''\<rparr>])"
    by (simp add: eval_defs)
  have h: "event_address ?EVA = Some ''A''" "''A'' \<noteq> []" "ev_data ?EVA \<noteq> PNone"
    "find_bridge_by_address (bridges ?M1) ''A'' = Some 0"
    "payload_to_int (ev_data ?EVA) = Inr (Some 2)"
    by (simp_all add: event_address_def parse_defs)
  show ?thesis
    using manager_500 first
      debounce_suppresses_iff [OF h, of "(2899192260119757 / 281474976710656)" 11]
      debounce_suppresses_iff [OF h, of "(5967269506265907 / 562949953421312)" 11]
    by (simp add: step_to_percent_div)
qed

text \<open>
  Two events at the boundary of the window. With the last send at the double 0.1 and the
  event at the double 0.6 the exact difference is below one half, the double difference
  is one half, and the event is processed. With a window of 300 ms (the double nearest
  to 0.3), a last send at 0 and the event at the double 0.3 the difference equals the
  window, and the event is processed.
\<close>

lemma debounce_rounded_difference:
  "(5404319552844595 / 9007199254740992) - (3602879701896397 / 36028797018963968) < (1 / 2 :: rat)
   \<and> float_sub (5404319552844595 / 9007199254740992) (3602879701896397 / 36028797018963968) = Finite (1 / 2)
   \<and> handle_knx_event
        \<lparr>bridges =
        [\<lparr>name = ''fan'', step_address = ''A'', percent_address = ''B'', max_step = 4,
         last_sent_step_ts = (3602879701896397 / 36028797018963968), last_sent_percent_ts = 0\<rparr>],
      debounce = 1 / 2\<rparr>
        (5404319552844595 / 9007199254740992) 1
        \<lparr>ev_address = Some ''A'', ev_destination = None, ev_data = PStr ''0x02''\<rparr> =
      Inr (\<lparr>bridges =
        [\<lparr>name = ''fan'', step_address = ''A'', percent_address = ''B'', max_step = 4,
         last_sent_step_ts = (3602879701896397 / 36028797018963968), last_sent_percent_ts = 1\<rparr>],
      debounce = 1 / 2\<rparr>,
           [\<lparr>send_address = ''B'', send_payload = 50, send_type = ''percent''\<rparr>])"
proof -
  have r: "round_finite ((5404319552844595 / 9007199254740992) - (3602879701896397 / 36028797018963968)) = 1 / 2"
    by code_simp
  have d: "float_sub (5404319552844595 / 9007199254740992) (3602879701896397 / 36028797018963968) = Finite (1 / 2)"
    unfolding float_sub_def round_double_def Let_def r by simp
  show ?thesis
    by (simp add: d handle_knx_event_def event_address_def send_percent_def
        step_to_percent_div parse_defs)
qed

lemma debounce_300_boundary:
  "KnxStepBridgeManager 300 = Inr \<lparr>bridges = [], debounce = (5404319552844595 / 18014398509481984)\<rparr>
   \<and> (5404319552844595 / 18014398509481984) < (3 / 10 :: rat)
   \<and> handle_knx_event
        \<lparr>bridges =
        [\<lparr>name = ''fan'', step_address = ''A'', percent_address = ''B'', max_step = 4,
         last_sent_step_ts = 0, last_sent_percent_ts = 0\<rparr>],
      debounce = (5404319552844595 / 18014398509481984)\<rparr>
        (5404319552844595 / 18014398509481984) 1
        \<lparr>ev_address = Some ''A'', ev_destination = None, ev_data = PStr ''0x02''\<rparr> =
      Inr (\<lparr>bridges =
        [\<lparr>name = ''fan'', step_address = ''A'', percent_address = ''B'', max_step = 4,
         last_sent_step_ts = 0, last_sent_percent_ts = 1\<rparr>],
      debounce = (5404319552844595 / 18014398509481984)\<rparr>,
           [\<lparr>send_address = ''B'', send_payload = 50, send_type = ''percent''\<rparr>])"
proof -
  have r: "round_finite ((5404319552844595 / 18014398509481984) - 0) = (5404319552844595 / 18014398509481984)"
    by code_simp
  have d: "float_sub (5404319552844595 / 18014398509481984) 0 = Finite (5404319552844595 / 18014398509481984)"
    unfolding float_sub_def round_double_def Let_def r by simp
  show ?thesis
    using manager_300
    by (simp add: d handle_knx_event_def event_address_def send_percent_def
        step_to_percent_div parse_defs)
qed

subsection \<open>Dropped events\<close>

text \<open>
  Claim C5. An event is dropped when its address or payload is missing, when the address
  is neither the step address nor the percent address of any bridge, when the payload
  does not decode, or when the debounce check of the matching direction (the
  double-precision test of the source) suppresses it. For every dropped event the handler
  dispatches no send and returns the manager as it was, both timestamps of every bridge
  included.
\<close>

theorem dropped_event_no_effect:
  assumes "event_address ev = None \<or> event_address ev = Some [] \<or> ev_data ev = PNone
         \<or> (\<exists>a. event_address ev = Some a
               \<and> (\<forall>b \<in> set (bridges m). a \<noteq> step_address b \<and> a \<noteq> percent_address b))
         \<or> payload_to_int (ev_data ev) = Inr None
         \<or> (\<exists>a i raw. event_address ev = Some a
               \<and> find_bridge_by_address (bridges m) a = Some i
               \<and> payload_to_int (ev_data ev) = Inr (Some raw)
               \<and> (if a = step_address (bridges m ! i)
                   then float_less (float_sub now (last_sent_step_ts (bridges m ! i)))
                          (debounce m)
                   else float_less (float_sub now (last_sent_percent_ts (bridges m ! i)))
                          (debounce m)))"
  shows "handle_knx_event m now ns ev = Inr (m, [])"
proof (cases "event_address ev")
  case None
  then show ?thesis by (rule handle_no_address)
next
  case (Some a)
  show ?thesis
  proof (cases "a = [] \<or> ev_data ev = PNone")
    case True
    with Some show ?thesis by (rule handle_missing)
  next
    case present: False
    show ?thesis
    proof (cases "find_bridge_by_address (bridges m) a")
      case None
      with Some show ?thesis by (rule handle_no_bridge)
    next
      case found: (Some i)
      have known: "\<not> (\<forall>b \<in> set (bridges m). a \<noteq> step_address b \<and> a \<noteq> percent_address b)"
        using found find_bridge_None [of "bridges m" a] by simp
      show ?thesis
      proof (cases "payload_to_int (ev_data ev) = Inr None")
        case True
        then show ?thesis by (rule handle_undecodable)
      next
        case False
        with assms Some present found known obtain raw where
          raw: "payload_to_int (ev_data ev) = Inr (Some raw)"
          and late: "if a = step_address (bridges m ! i)
                   then float_less (float_sub now (last_sent_step_ts (bridges m ! i)))
                          (debounce m)
                   else float_less (float_sub now (last_sent_percent_ts (bridges m ! i)))
                          (debounce m)"
          by auto
        from present have p: "a \<noteq> []" "ev_data ev \<noteq> PNone" by simp_all
        show ?thesis
          using late by (simp add: handle_reached [OF Some p found raw] split: if_splits)
      qed
    qed
  qed
qed

theorem dropped_event_no_effect_witness:
  "handle_knx_event
     \<lparr>bridges =
        [\<lparr>name = ''fan'', step_address = ''A'', percent_address = ''B'', max_step = 4,
         last_sent_step_ts = 10, last_sent_percent_ts = 0\<rparr>],
      debounce = 1 / 2\<rparr>
     20 21 \<lparr>ev_address = None, ev_destination = None, ev_data = PInt 1\<rparr> =
   Inr (\<lparr>bridges =
        [\<lparr>name = ''fan'', step_address = ''A'', percent_address = ''B'', max_step = 4,
         last_sent_step_ts = 10, last_sent_percent_ts = 0\<rparr>],
      debounce = 1 / 2\<rparr>, [])
   \<and> handle_knx_event
        \<lparr>bridges =
        [\<lparr>name = ''fan'', step_address = ''A'', percent_address = ''B'', max_step = 4,
         last_sent_step_ts = 10, last_sent_percent_ts = 0\<rparr>],
      debounce = 1 / 2\<rparr>
        20 21 \<lparr>ev_address = Some ''A'', ev_destination = None, ev_data = PNone\<rparr> =
      Inr (\<lparr>bridges =
        [\<lparr>name = ''fan'', step_address = ''A'', percent_address = ''B'', max_step = 4,
         last_sent_step_ts = 10, last_sent_percent_ts = 0\<rparr>],
      debounce = 1 / 2\<rparr>, [])
   \<and> handle_knx_event
        \<lparr>bridges =
        [\<lparr>name = ''fan'', step_address = ''A'', percent_address = ''B'', max_step = 4,
         last_sent_step_ts = 10, last_sent_percent_ts = 0\<rparr>],
      debounce = 1 / 2\<rparr>
        20 21 \<lparr>ev_address = Some ''C'', ev_destination = None, ev_data = PInt 1\<rparr> =
      Inr (\<lparr>bridges =
        [\<lparr>name = ''fan'', step_address = ''A'', percent_address = ''B'', max_step = 4,
         last_sent_step_ts = 10, last_sent_percent_ts = 0\<rparr>],
      debounce = 1 / 2\<rparr>, [])
   \<and> handle_knx_event
        \<lparr>bridges =
        [\<lparr>name = ''fan'', step_address = ''A'', percent_address = ''B'', max_step = 4,
         last_sent_step_ts = 10, last_sent_percent_ts = 0\<rparr>],
      debounce = 1 / 2\<rparr>
        20 21 \<lparr>ev_address = Some ''A'', ev_destination = None, ev_data = PStr ''not-a-number''\<rparr> =
      Inr (\<lparr>bridges =
        [\<lparr>name = ''fan'', step_address = ''A'', percent_address = ''B'', max_step = 4,
         last_sent_step_ts = 10, last_sent_percent_ts = 0\<rparr>],
      debounce = 1 / 2\<rparr>, [])
   \<and> handle_knx_event
        \<lparr>bridges =
        [\<lparr>name = ''fan'', step_address = ''A'', percent_address = ''B'', max_step = 4,
         last_sent_step_ts = 10, last_sent_percent_ts = 0\<rparr>],
      debounce = 1 / 2\<rparr>
        (2899192260119757 / 281474976710656) 11 \<lparr>ev_address = Some ''A'', ev_destination = None, ev_data = PStr ''0x02''\<rparr> =
      Inr (\<lparr>bridges =
        [\<lparr>name = ''fan'', step_address = ''A'', percent_address = ''B'', max_step = 4,
         last_sent_step_ts = 10, last_sent_percent_ts = 0\<rparr>],
      debounce = 1 / 2\<rparr>, [])"
proof -
  let ?M1 = "\<lparr>bridges =
        [\<lparr>name = ''fan'', step_address = ''A'', percent_address = ''B'', max_step = 4,
         last_sent_step_ts = 10, last_sent_percent_ts = 0\<rparr>],
      debounce = 1 / 2\<rparr>"
  have missing: "event_address \<lparr>ev_address = None, ev_destination = None, ev_data = PInt 1\<rparr> = None"
    by (simp add: event_address_def)
  have no_payload: "ev_data \<lparr>ev_address = Some ''A'', ev_destination = None, ev_data = PNone\<rparr> = PNone"
    by simp
  have unknown: "\<exists>a. event_address \<lparr>ev_address = Some ''C'', ev_destination = None, ev_data = PInt 1\<rparr> = Some a
      \<and> (\<forall>b \<in> set (bridges ?M1). a \<noteq> step_address b \<and> a \<noteq> percent_address b)"
    by (simp add: event_address_def)
  have undecodable: "payload_to_int (ev_data \<lparr>ev_address = Some ''A'', ev_destination = None, ev_data = PStr ''not-a-number''\<rparr>) = Inr None"
    by (simp add: parse_defs)
  have debounced: "\<exists>a i raw. event_address \<lparr>ev_address = Some ''A'', ev_destination = None, ev_data = PStr ''0x02''\<rparr> = Some a
      \<and> find_bridge_by_address (bridges ?M1) a = Some i
      \<and> payload_to_int (ev_data \<lparr>ev_address = Some ''A'', ev_destination = None, ev_data = PStr ''0x02''\<rparr>) = Inr (Some raw)
      \<and> (if a = step_address (bridges ?M1 ! i)
          then float_less (float_sub (2899192260119757 / 281474976710656) (last_sent_step_ts (bridges ?M1 ! i)))
                 (debounce ?M1)
          else float_less (float_sub (2899192260119757 / 281474976710656) (last_sent_percent_ts (bridges ?M1 ! i)))
                 (debounce ?M1))"
    by (simp add: event_address_def parse_defs float_sub_def half_window_below)
  show ?thesis
    using dropped_event_no_effect [of "\<lparr>ev_address = None, ev_destination = None, ev_data = PInt 1\<rparr>" "?M1" 20 21] missing
      dropped_event_no_effect [of "\<lparr>ev_address = Some ''A'', ev_destination = None, ev_data = PNone\<rparr>" "?M1" 20 21] no_payload
      dropped_event_no_effect [of "\<lparr>ev_address = Some ''C'', ev_destination = None, ev_data = PInt 1\<rparr>" "?M1" 20 21] unknown
      dropped_event_no_effect [of "\<lparr>ev_address = Some ''A'', ev_destination = None, ev_data = PStr ''not-a-number''\<rparr>" "?M1" 20 21] undecodable
      dropped_event_no_effect [of "\<lparr>ev_address = Some ''A'', ev_destination = None, ev_data = PStr ''0x02''\<rparr>" "?M1" "(2899192260119757 / 281474976710656)" 11] debounced
    by blast
qed

subsection \<open>Payload ranges of the sends\<close>

text \<open>
  Claim C6. For a manager built from validated configuration, every event and every
  decoded integer, negative or above 255 included: a dispatched percent send goes to the
  percent address of the resolved bridge with a payload in \<open>0..100\<close>, and a dispatched step
  send goes to its step address with a payload in \<open>0..max_step\<close>.
\<close>

theorem send_payload_in_range:
  assumes "valid_config m" "handle_knx_event m now ns ev = Inr (m', sends)" "s \<in> set sends"
  shows "\<exists>a i. event_address ev = Some a \<and> find_bridge_by_address (bridges m) a = Some i
           \<and> ((send_type s = ''percent'' \<and> send_address s = percent_address (bridges m ! i)
                 \<and> 0 \<le> send_payload s \<and> send_payload s \<le> 100)
              \<or> (send_type s = ''1byte_unsigned''
                 \<and> send_address s = step_address (bridges m ! i)
                 \<and> 0 \<le> send_payload s \<and> send_payload s \<le> max_step (bridges m ! i)))"
proof -
  consider
    (drop) "sends = []"
  | (percent) a i p where "event_address ev = Some a"
      "find_bridge_by_address (bridges m) a = Some i"
      "sends = [\<lparr>send_address = percent_address (bridges m ! i),
                 send_payload = max 0 (min 100 p), send_type = ''percent''\<rparr>]"
  | (step) a i st where "event_address ev = Some a"
      "find_bridge_by_address (bridges m) a = Some i"
      "sends = [\<lparr>send_address = step_address (bridges m ! i),
                 send_payload = max 0 (min (max_step (bridges m ! i)) st),
                 send_type = ''1byte_unsigned''\<rparr>]"
    using handle_shape [OF assms(2)] by blast
  then show ?thesis
  proof cases
    case drop
    with assms(3) show ?thesis by simp
  next
    case percent
    with assms(3) show ?thesis by auto
  next
    case step
    from find_bridge_Some [OF step(2)] have "bridges m ! i \<in> set (bridges m)" by simp
    with assms(1) have "1 \<le> max_step (bridges m ! i)" by (simp add: valid_config_def)
    with step assms(3) show ?thesis by auto
  qed
qed

text \<open>A raw value of 1000 on the step address and a raw value of -7 on the percent address.\<close>

theorem send_payload_in_range_witness:
  "valid_config (add_bridge \<lparr>bridges = [], debounce = 0\<rparr> (Bridge ''fan'' ''A'' ''B'' 4))
   \<and> handle_knx_event (add_bridge \<lparr>bridges = [], debounce = 0\<rparr> (Bridge ''fan'' ''A'' ''B'' 4)) 10 11 \<lparr>ev_address = Some ''A'', ev_destination = None, ev_data = PInt 1000\<rparr> = Inr (\<lparr>bridges = [\<lparr>name = ''fan'', step_address = ''A'', percent_address = ''B'', max_step = 4,
        last_sent_step_ts = 0, last_sent_percent_ts = 11\<rparr>], debounce = 0\<rparr>, [\<lparr>send_address = ''B'', send_payload = 100, send_type = ''percent''\<rparr>])
   \<and> handle_knx_event (add_bridge \<lparr>bridges = [], debounce = 0\<rparr> (Bridge ''fan'' ''A'' ''B'' 4)) 10 12 \<lparr>ev_address = Some '''', ev_destination = Some ''B'', ev_data = PInt (- 7)\<rparr> = Inr (\<lparr>bridges = [\<lparr>name = ''fan'', step_address = ''A'', percent_address = ''B'', max_step = 4,
        last_sent_step_ts = 12, last_sent_percent_ts = 0\<rparr>], debounce = 0\<rparr>, [\<lparr>send_address = ''A'', send_payload = 0, send_type = ''1byte_unsigned''\<rparr>])"
proof -
  let ?S100 = "\<lparr>send_address = ''B'', send_payload = 100, send_type = ''percent''\<rparr>"
  let ?S0 = "\<lparr>send_address = ''A'', send_payload = 0, send_type = ''1byte_unsigned''\<rparr>"
  have v: "valid_config (add_bridge \<lparr>bridges = [], debounce = 0\<rparr> (Bridge ''fan'' ''A'' ''B'' 4))"
    by (simp add: eval_defs)
  have big: "handle_knx_event (add_bridge \<lparr>bridges = [], debounce = 0\<rparr> (Bridge ''fan'' ''A'' ''B'' 4)) 10 11 \<lparr>ev_address = Some ''A'', ev_destination = None, ev_data = PInt 1000\<rparr> = Inr (\<lparr>bridges = [\<lparr>name = ''fan'', step_address = ''A'', percent_address = ''B'', max_step = 4,
        last_sent_step_ts = 0, last_sent_percent_ts = 11\<rparr>], debounce = 0\<rparr>, [?S100])"
    by (simp add: eval_defs)
  have neg: "handle_knx_event (add_bridge \<lparr>bridges = [], debounce = 0\<rparr> (Bridge ''fan'' ''A'' ''B'' 4)) 10 12 \<lparr>ev_address = Some '''', ev_destination = Some ''B'', ev_data = PInt (- 7)\<rparr> = Inr (\<lparr>bridges = [\<lparr>name = ''fan'', step_address = ''A'', percent_address = ''B'', max_step = 4,
        last_sent_step_ts = 12, last_sent_percent_ts = 0\<rparr>], debounce = 0\<rparr>, [?S0])"
    by (simp add: eval_defs)
  have "?S100 \<in> set [?S100]" "?S0 \<in> set [?S0]" by simp_all
  then show ?thesis
    using v big neg send_payload_in_range [OF v big, of "?S100"]
      send_payload_in_range [OF v neg, of "?S0"]
    by simp
qed

subsection \<open>Frame\<close>

text \<open>
  Claim C10. Handling one event leaves the name, the two addresses and \<open>max_step\<close> of
  every bridge unchanged (and the registry's length and the debounce window). At most
  one send is dispatched; without a send nothing changes; a percent send stamps
  \<open>last_sent_percent_ts\<close> of one bridge and leaves every \<open>last_sent_step_ts\<close> alone, a step
  send stamps \<open>last_sent_step_ts\<close> of one bridge and leaves every \<open>last_sent_percent_ts\<close>
  alone. (When the handler raises, nothing has been written.)
\<close>

theorem handle_knx_event_frame:
  assumes "handle_knx_event m now ns ev = Inr (m', sends)"
  shows "length (bridges m') = length (bridges m) \<and> debounce m' = debounce m
       \<and> (\<forall>j<length (bridges m).
             name (bridges m' ! j) = name (bridges m ! j)
           \<and> step_address (bridges m' ! j) = step_address (bridges m ! j)
           \<and> percent_address (bridges m' ! j) = percent_address (bridges m ! j)
           \<and> max_step (bridges m' ! j) = max_step (bridges m ! j))
       \<and> length sends \<le> 1
       \<and> (sends = [] \<longrightarrow> m' = m)
       \<and> (\<forall>s. sends = [s] \<longrightarrow>
            (\<exists>i<length (bridges m).
                (send_type s = ''percent''
                 \<and> bridges m' = (bridges m)[i := (bridges m ! i)\<lparr>last_sent_percent_ts := ns\<rparr>]
                 \<and> (\<forall>j<length (bridges m).
                       last_sent_step_ts (bridges m' ! j) = last_sent_step_ts (bridges m ! j)))
              \<or> (send_type s = ''1byte_unsigned''
                 \<and> bridges m' = (bridges m)[i := (bridges m ! i)\<lparr>last_sent_step_ts := ns\<rparr>]
                 \<and> (\<forall>j<length (bridges m).
                       last_sent_percent_ts (bridges m' ! j) = last_sent_percent_ts (bridges m ! j)))))"
proof -
  consider
    (drop) "m' = m" "sends = []"
  | (percent) i p where "i < length (bridges m)"
      "m' = m\<lparr>bridges := (bridges m)[i := (bridges m ! i)\<lparr>last_sent_percent_ts := ns\<rparr>]\<rparr>"
      "sends = [\<lparr>send_address = percent_address (bridges m ! i),
                 send_payload = max 0 (min 100 p), send_type = ''percent''\<rparr>]"
  | (step) i st where "i < length (bridges m)"
      "m' = m\<lparr>bridges := (bridges m)[i := (bridges m ! i)\<lparr>last_sent_step_ts := ns\<rparr>]\<rparr>"
      "sends = [\<lparr>send_address = step_address (bridges m ! i),
                 send_payload = max 0 (min (max_step (bridges m ! i)) st),
                 send_type = ''1byte_unsigned''\<rparr>]"
    using handle_shape [OF assms] find_bridge_Some by blast
  then show ?thesis
  proof cases
    case drop
    then show ?thesis by simp
  next
    case percent
    show ?thesis
      using stamp_percent_frame [OF percent(1), of ns] percent by auto
  next
    case step
    show ?thesis
      using stamp_step_frame [OF step(1), of ns] step by auto
  qed
qed

text \<open>A percent send, a step send and a drop.\<close>

theorem handle_knx_event_frame_witness:
  "handle_knx_event (add_bridge \<lparr>bridges = [], debounce = 0\<rparr> (Bridge ''fan'' ''A'' ''B'' 4)) 10 11 \<lparr>ev_address = Some ''A'', ev_destination = None, ev_data = PInt 1000\<rparr> = Inr (\<lparr>bridges = [\<lparr>name = ''fan'', step_address = ''A'', percent_address = ''B'', max_step = 4,
        last_sent_step_ts = 0, last_sent_percent_ts = 11\<rparr>], debounce = 0\<rparr>, [\<lparr>send_address = ''B'', send_payload = 100, send_type = ''percent''\<rparr>])
   \<and> handle_knx_event (add_bridge \<lparr>bridges = [], debounce = 0\<rparr> (Bridge ''fan'' ''A'' ''B'' 4)) 10 12 \<lparr>ev_address = Some '''', ev_destination = Some ''B'', ev_data = PInt (- 7)\<rparr> = Inr (\<lparr>bridges = [\<lparr>name = ''fan'', step_address = ''A'', percent_address = ''B'', max_step = 4,
        last_sent_step_ts = 12, last_sent_percent_ts = 0\<rparr>], debounce = 0\<rparr>, [\<lparr>send_address = ''A'', send_payload = 0, send_type = ''1byte_unsigned''\<rparr>])
   \<and> handle_knx_event (add_bridge \<lparr>bridges = [], debounce = 0\<rparr> (Bridge ''fan'' ''A'' ''B'' 4)) 10 11 \<lparr>ev_address = Some ''C'', ev_destination = None, ev_data = PInt 1\<rparr> = Inr ((add_bridge \<lparr>bridges = [], debounce = 0\<rparr> (Bridge ''fan'' ''A'' ''B'' 4)), [])
   \<and> length (bridges \<lparr>bridges = [\<lparr>name = ''fan'', step_address = ''A'', percent_address = ''B'', max_step = 4,
        last_sent_step_ts = 0, last_sent_percent_ts = 11\<rparr>], debounce = 0\<rparr>) = length (bridges (add_bridge \<lparr>bridges = [], debounce = 0\<rparr> (Bridge ''fan'' ''A'' ''B'' 4)))
   \<and> max_step (bridges \<lparr>bridges = [\<lparr>name = ''fan'', step_address = ''A'', percent_address = ''B'', max_step = 4,
        last_sent_step_ts = 0, last_sent_percent_ts = 11\<rparr>], debounce = 0\<rparr> ! 0) = 4
   \<and> last_sent_step_ts (bridges \<lparr>bridges = [\<lparr>name = ''fan'', step_address = ''A'', percent_address = ''B'', max_step = 4,
        last_sent_step_ts = 0, last_sent_percent_ts = 11\<rparr>], debounce = 0\<rparr> ! 0) = 0
   \<and> last_sent_percent_ts (bridges \<lparr>bridges = [\<lparr>name = ''fan'', step_address = ''A'', percent_address = ''B'', max_step = 4,
        last_sent_step_ts = 12, last_sent_percent_ts = 0\<rparr>], debounce = 0\<rparr> ! 0) = 0"
proof -
  have big: "handle_knx_event (add_bridge \<lparr>bridges = [], debounce = 0\<rparr> (Bridge ''fan'' ''A'' ''B'' 4)) 10 11 \<lparr>ev_address = Some ''A'', ev_destination = None, ev_data = PInt 1000\<rparr> = Inr (\<lparr>bridges = [\<lparr>name = ''fan'', step_address = ''A'', percent_address = ''B'', max_step = 4,
        last_sent_step_ts = 0, last_sent_percent_ts = 11\<rparr>], debounce = 0\<rparr>, [\<lparr>send_address = ''B'', send_payload = 100, send_type = ''percent''\<rparr>])"
    by (simp add: eval_defs)
  have neg: "handle_knx_event (add_bridge \<lparr>bridges = [], debounce = 0\<rparr> (Bridge ''fan'' ''A'' ''B'' 4)) 10 12 \<lparr>ev_address = Some '''', ev_destination = Some ''B'', ev_data = PInt (- 7)\<rparr> = Inr (\<lparr>bridges = [\<lparr>name = ''fan'', step_address = ''A'', percent_address = ''B'', max_step = 4,
        last_sent_step_ts = 12, last_sent_percent_ts = 0\<rparr>], debounce = 0\<rparr>, [\<lparr>send_address = ''A'', send_payload = 0, send_type = ''1byte_unsigned''\<rparr>])"
    by (simp add: eval_defs)
  have unknown: "handle_knx_event (add_bridge \<lparr>bridges = [], debounce = 0\<rparr> (Bridge ''fan'' ''A'' ''B'' 4)) 10 11 \<lparr>ev_address = Some ''C'', ev_destination = None, ev_data = PInt 1\<rparr> = Inr ((add_bridge \<lparr>bridges = [], debounce = 0\<rparr> (Bridge ''fan'' ''A'' ''B'' 4)), [])"
    by (simp add: eval_defs)
  show ?thesis
    using big neg unknown handle_knx_event_frame [OF big] handle_knx_event_frame [OF neg]
      handle_knx_event_frame [OF unknown]
    by (simp add: eval_defs)
qed

end
